theory Spec2Isabelle
  imports Main "HOL-Library.AList"
begin

unbundle bit_operations_syntax

section \<open>Coordinates and bounding boxes\<close>

text \<open>
  Modelled from the spec: \<open>Coord\<close> and \<open>CoordBBox\<close> are declared in
  \<open>openvdb/Types.h\<close>, which \<open>Dense.h\<close> includes but which is not among the sources. The
  spec calls a bounding box "an inclusive signed 3-D integer interval" with
  \<open>dim = max - min + 1\<close> and \<open>volume = dim.x * dim.y * dim.z\<close>; no width is given for the
  coordinates, so they are mathematical integers here.
\<close>

datatype Coord = Coord (cx: int) (cy: int) (cz: int)

record CoordBBox =
  mMin :: Coord
  mMax :: Coord

definition offsetBy :: "Coord \<Rightarrow> int \<Rightarrow> Coord" where
  "offsetBy c n = Coord (cx c + n) (cy c + n) (cz c + n)"


definition coord_and :: "Coord \<Rightarrow> int \<Rightarrow> Coord" where
  "coord_and c n = Coord (cx c AND n) (cy c AND n) (cz c AND n)"

definition minComponent :: "Coord \<Rightarrow> Coord \<Rightarrow> Coord" where
  "minComponent a b = Coord (min (cx a) (cx b)) (min (cy a) (cy b)) (min (cz a) (cz b))"

definition bbox_dim :: "CoordBBox \<Rightarrow> Coord" where
  "bbox_dim b = Coord (cx (mMax b) - cx (mMin b) + 1)
                      (cy (mMax b) - cy (mMin b) + 1)
                      (cz (mMax b) - cz (mMin b) + 1)"

definition volume :: "CoordBBox \<Rightarrow> nat" where
  "volume b = nat (cx (bbox_dim b)) * nat (cy (bbox_dim b)) * nat (cz (bbox_dim b))"

definition bbox_empty :: "CoordBBox \<Rightarrow> bool" where
  "bbox_empty b \<longleftrightarrow>
     cx (mMin b) > cx (mMax b) \<or> cy (mMin b) > cy (mMax b) \<or> cz (mMin b) > cz (mMax b)"

definition isInside :: "CoordBBox \<Rightarrow> Coord \<Rightarrow> bool" where
  "isInside b c \<longleftrightarrow>
     cx (mMin b) \<le> cx c \<and> cx c \<le> cx (mMax b) \<and>
     cy (mMin b) \<le> cy c \<and> cy c \<le> cy (mMax b) \<and>
     cz (mMin b) \<le> cz c \<and> cz c \<le> cz (mMax b)"

definition maxComponent :: "Coord \<Rightarrow> Coord \<Rightarrow> Coord" where
  "maxComponent a b = Coord (max (cx a) (cx b)) (max (cy a) (cy b)) (max (cz a) (cz b))"

definition bbox_intersect :: "CoordBBox \<Rightarrow> CoordBBox \<Rightarrow> CoordBBox" where
  "bbox_intersect a b =
     \<lparr>mMin = maxComponent (mMin a) (mMin b), mMax = minComponent (mMax a) (mMax b)\<rparr>"

section \<open>The dense grid\<close>

text \<open>
  \<open>ValueError\<close> is what the constructors throw (the spec names this error kind
  \<open>EmptyDomain\<close>); \<open>AssertionFailure\<close> is a failed \<open>assert\<close> of a debug build;
  \<open>OutOfBounds\<close> stands for a read or write of \<open>mData\<close> past the end of the array,
  which C++ leaves undefined.
\<close>

datatype error = ValueError | AssertionFailure | OutOfBounds

text \<open>
  \<open>class Dense\<close>: the box, the value array \<open>mData\<close> and the two strides. Offsets and
  strides are \<open>size_t\<close>; they are natural numbers here, every offset the grid computes
  for a coordinate of its box being below the length of an array that exists in memory.
\<close>

record 'v Dense =
  mBBox :: CoordBBox
  mData :: "'v list"
  mY :: nat
  mX :: nat





text \<open>The member initialisers shared by the constructors: \<open>mY(dim[2]), mX(mY*dim[1])\<close>.\<close>

definition dense_fields :: "CoordBBox \<Rightarrow> 'v list \<Rightarrow> 'v Dense" where
  "dense_fields box xs =
     \<lparr>mBBox = box, mData = xs,
      mY = nat (cz (bbox_dim box)),
      mX = nat (cz (bbox_dim box)) * nat (cy (bbox_dim box))\<rparr>"





text \<open>The accessors by array offset: \<open>mData[offset]\<close>, with nothing before it.\<close>

definition getValue_offset :: "'v Dense \<Rightarrow> nat \<Rightarrow> error + 'v" where
  "getValue_offset d off =
     (if off < length (mData d) then Inr (mData d ! off) else Inl OutOfBounds)"

definition setValue_offset :: "'v Dense \<Rightarrow> nat \<Rightarrow> 'v \<Rightarrow> error + 'v Dense" where
  "setValue_offset d off v =
     (if off < length (mData d) then Inr (d\<lparr>mData := (mData d)[off := v]\<rparr>)
      else Inl OutOfBounds)"

text \<open>\<open>coordToOffset(size_t i, size_t j, size_t k)\<close>\<close>

definition coordToOffset :: "'v Dense \<Rightarrow> nat \<Rightarrow> nat \<Rightarrow> nat \<Rightarrow> nat" where
  "coordToOffset d i j k = k + j * mY d + i * mX d"

text \<open>\<open>coordToOffset(Coord xyz)\<close>: the assertion first, then the unsigned coordinates.\<close>

definition coordToOffset_xyz :: "'v Dense \<Rightarrow> Coord \<Rightarrow> error + nat" where
  "coordToOffset_xyz d xyz =
     (if isInside (mBBox d) xyz
      then Inr (coordToOffset d (nat (cx xyz - cx (mMin (mBBox d))))
                                (nat (cy xyz - cy (mMin (mBBox d))))
                                (nat (cz xyz - cz (mMin (mBBox d)))))
      else Inl AssertionFailure)"

definition getValue_xyz :: "'v Dense \<Rightarrow> Coord \<Rightarrow> error + 'v" where
  "getValue_xyz d xyz =
     (case coordToOffset_xyz d xyz of
        Inl e \<Rightarrow> Inl e
      | Inr off \<Rightarrow> getValue_offset d off)"

definition setValue_xyz :: "'v Dense \<Rightarrow> Coord \<Rightarrow> 'v \<Rightarrow> error + 'v Dense" where
  "setValue_xyz d xyz v =
     (case coordToOffset_xyz d xyz of
        Inl e \<Rightarrow> Inl e
      | Inr off \<Rightarrow> setValue_offset d off v)"


text \<open>
  What every constructor establishes: a non-empty box, the strides of its dimensions,
  and an array that holds at least \<open>volume\<close> values (exactly that many when the grid
  allocated it; for a wrapped array this is the caller's obligation).
\<close>

definition dense_ok :: "'v Dense \<Rightarrow> bool" where
  "dense_ok d \<longleftrightarrow>
     \<not> bbox_empty (mBBox d) \<and>
     mY d = nat (cz (bbox_dim (mBBox d))) \<and>
     mX d = nat (cz (bbox_dim (mBBox d))) * nat (cy (bbox_dim (mBBox d))) \<and>
     volume (mBBox d) \<le> length (mData d)"


section \<open>Leaf nodes\<close>

text \<open>
  Modelled from the spec: \<open>LeafT\<close> (\<open>openvdb/tree/LeafNode.h\<close>) is not among the sources.
  The spec gives its primitives: \<open>leaf.fill(value, active)\<close>,
  \<open>leaf.copyFromDenseBox(box, dense, background, tolerance)\<close> ("overwrite every voxel
  whose coordinate lies in the dense grid's box with the corresponding dense value,
  marking it active unless that value is within tolerance of the destination background,
  in which case it is written as inactive background") and
  \<open>leaf.isUniform(tolerance) -> (value, active)\<close> ("all voxels equal within tolerance and
  same active state"). A leaf is a cube of edge \<open>DIM = 2 ^ LOG2DIM\<close> voxels, each with a
  value and an active state. \<open>LOG2DIM\<close> is a parameter of the tree's type, written
  \<open>lg\<close> below.
\<close>

definition DIM :: "nat \<Rightarrow> int" where
  "DIM lg = 2 ^ lg"

definition leaf_SIZE :: "nat \<Rightarrow> nat" where
  "leaf_SIZE lg = 2 ^ (3 * lg)"

record 'v LeafT =
  mOrigin :: Coord
  mVoxels :: "('v \<times> bool) list"

text \<open>
  \<open>new LeafT()\<close>. Whatever a new leaf holds, \<open>operator()\<close> overwrites all its voxels
  before it reads any; here it holds zeros, inactive.
\<close>

definition leaf_new :: "nat \<Rightarrow> ('v::zero) LeafT" where
  "leaf_new lg = \<lparr>mOrigin = Coord 0 0 0, mVoxels = replicate (leaf_SIZE lg) (0, False)\<rparr>"

definition leaf_fill :: "nat \<Rightarrow> 'v \<Rightarrow> bool \<Rightarrow> 'v LeafT \<Rightarrow> 'v LeafT" where
  "leaf_fill lg v s l = l\<lparr>mVoxels := replicate (leaf_SIZE lg) (v, s)\<rparr>"

definition leaf_setOrigin :: "Coord \<Rightarrow> 'v LeafT \<Rightarrow> 'v LeafT" where
  "leaf_setOrigin c l = l\<lparr>mOrigin := c\<rparr>"

text \<open>The position of a coordinate in its leaf: z is the fastest index, as in the grid.\<close>

definition leaf_offset :: "nat \<Rightarrow> Coord \<Rightarrow> nat" where
  "leaf_offset lg c =
     nat (push_bit (2 * lg) (cx c AND (DIM lg - 1)) + push_bit lg (cy c AND (DIM lg - 1))
          + (cz c AND (DIM lg - 1)))"

text \<open>
  "Within tolerance": the difference does not exceed the tolerance. \<open>ValueT\<close> is any
  ordered ring (the integers, the rationals, the reals); rounding of floating point
  values is not modelled.
\<close>

definition isApproxEqual :: "('v::linordered_idom) \<Rightarrow> 'v \<Rightarrow> 'v \<Rightarrow> bool" where
  "isApproxEqual a b tol \<longleftrightarrow> \<not> (\<bar>a - b\<bar> > tol)"

text \<open>
  The coordinates of a box in the order of three nested loops over x, y and z, and the
  read of the grid's array at a coordinate of the grid's box.
\<close>

definition box_coords :: "CoordBBox \<Rightarrow> Coord list" where
  "box_coords b =
     concat (map (\<lambda>x. concat (map (\<lambda>y. map (\<lambda>z. Coord x y z)
                                            [cz (mMin b)..cz (mMax b)])
                                  [cy (mMin b)..cy (mMax b)]))
                 [cx (mMin b)..cx (mMax b)])"

definition dense_read :: "'v Dense \<Rightarrow> Coord \<Rightarrow> error + 'v" where
  "dense_read d c =
     (if isInside (mBBox d) c
      then getValue_offset d (coordToOffset d (nat (cx c - cx (mMin (mBBox d))))
                                              (nat (cy c - cy (mMin (mBBox d))))
                                              (nat (cz c - cz (mMin (mBBox d)))))
      else Inl OutOfBounds)"

fun copy_voxels ::
  "nat \<Rightarrow> ('v::linordered_idom) Dense \<Rightarrow> 'v \<Rightarrow> 'v \<Rightarrow> Coord list \<Rightarrow> ('v \<times> bool) list
   \<Rightarrow> error + ('v \<times> bool) list" where
  "copy_voxels lg d bg tol [] vs = Inr vs"
| "copy_voxels lg d bg tol (c # cs) vs =
     (case dense_read d c of
        Inl e \<Rightarrow> Inl e
      | Inr v \<Rightarrow>
          copy_voxels lg d bg tol cs
            (if isApproxEqual bg v tol then vs[leaf_offset lg c := (bg, False)]
             else vs[leaf_offset lg c := (v, True)]))"

definition leaf_copyFromDense ::
  "nat \<Rightarrow> CoordBBox \<Rightarrow> ('v::linordered_idom) Dense \<Rightarrow> 'v \<Rightarrow> 'v \<Rightarrow> 'v LeafT \<Rightarrow> error + 'v LeafT" where
  "leaf_copyFromDense lg box d bg tol l =
     (case copy_voxels lg d bg tol (box_coords box) (mVoxels l) of
        Inl e \<Rightarrow> Inl e
      | Inr vs \<Rightarrow> Inr (l\<lparr>mVoxels := vs\<rparr>))"

text \<open>
  A leaf is constant when its voxels have one active state and every value is within
  tolerance of the first; the answer is that first value and the state.
\<close>

definition leaf_isConstant :: "('v::linordered_idom) \<Rightarrow> 'v LeafT \<Rightarrow> ('v \<times> bool) option" where
  "leaf_isConstant tol l =
     (case mVoxels l of
        [] \<Rightarrow> None
      | (v0, s0) # rest \<Rightarrow>
          if list_all (\<lambda>(v, s). s = s0) rest \<and> list_all (\<lambda>(v, s). isApproxEqual v v0 tol) rest
          then Some (v0, s0) else None)"

section \<open>The sparse tree\<close>

text \<open>
  Modelled from the spec: the tree (\<open>TreeT\<close>, its root node and \<open>tree::ValueAccessor\<close>) is
  not among the sources. The spec lists what the converter consumes: \<open>tree.background()\<close>,
  "the ambient value implied by absence of explicit storage"; the point queries
  \<open>accessor.probeLeaf(coord) -> leaf|null\<close> and \<open>accessor.probeValue(coord) -> (value, active)\<close>;
  the insertion primitives \<open>accessor.addLeaf(leaf)\<close> and
  \<open>accessor.addTile(depth, origin, value, active)\<close>; and \<open>tree.copyToDenseBox(box, sink)\<close>,
  which populates the sink "for all voxels in box, both active and inactive". The tree is
  the background and a table from the origins of leaf cells to what is stored there: a
  leaf, or a tile with the level it was added at, its value and its active state. An
  accessor answers as the tree does.
\<close>

datatype 'v node = LeafNode "'v LeafT" | TileNode nat 'v bool

record 'v Tree =
  background :: 'v
  mTable :: "(Coord \<times> 'v node) list"

definition cell_origin :: "nat \<Rightarrow> Coord \<Rightarrow> Coord" where
  "cell_origin lg c = coord_and c (NOT (DIM lg - 1))"

definition leaf_cell :: "nat \<Rightarrow> Coord \<Rightarrow> CoordBBox" where
  "leaf_cell lg origin = \<lparr>mMin = origin, mMax = offsetBy origin (DIM lg - 1)\<rparr>"

definition tree_empty :: "'v Tree \<Rightarrow> bool" where
  "tree_empty t \<longleftrightarrow> mTable t = []"

definition probeConstLeaf :: "nat \<Rightarrow> 'v Tree \<Rightarrow> Coord \<Rightarrow> 'v LeafT option" where
  "probeConstLeaf lg t xyz =
     (case map_of (mTable t) (cell_origin lg xyz) of
        Some (LeafNode l) \<Rightarrow> Some l
      | _ \<Rightarrow> None)"

text \<open>
  \<open>probeValue\<close> returns the active state and stores the value through its reference.
  In a leaf it reads the voxel at the coordinate's position, which is below
  \<open>leaf_SIZE\<close>, the number of voxels a leaf has.
\<close>

definition probeValue :: "nat \<Rightarrow> 'v Tree \<Rightarrow> Coord \<Rightarrow> bool \<times> 'v" where
  "probeValue lg t xyz =
     (case map_of (mTable t) (cell_origin lg xyz) of
        Some (LeafNode l) \<Rightarrow> (snd (mVoxels l ! leaf_offset lg xyz), fst (mVoxels l ! leaf_offset lg xyz))
      | Some (TileNode lvl v s) \<Rightarrow> (s, v)
      | None \<Rightarrow> (False, background t))"

definition addLeaf :: "nat \<Rightarrow> 'v LeafT \<Rightarrow> 'v Tree \<Rightarrow> 'v Tree" where
  "addLeaf lg l t =
     t\<lparr>mTable := AList.update (cell_origin lg (mOrigin l)) (LeafNode l) (mTable t)\<rparr>"

definition addTile :: "nat \<Rightarrow> nat \<Rightarrow> Coord \<Rightarrow> 'v \<Rightarrow> bool \<Rightarrow> 'v Tree \<Rightarrow> 'v Tree" where
  "addTile lg lvl xyz v s t =
     t\<lparr>mTable := AList.update (cell_origin lg xyz) (TileNode lvl v s) (mTable t)\<rparr>"

text \<open>The numbers of leaves and of tiles a tree stores, for the claims that count them.\<close>

definition leafCount :: "'v Tree \<Rightarrow> nat" where
  "leafCount t = length (filter (\<lambda>(k, n). case n of LeafNode l \<Rightarrow> True | _ \<Rightarrow> False) (mTable t))"

definition tileCount :: "'v Tree \<Rightarrow> nat" where
  "tileCount t = length (filter (\<lambda>(k, n). case n of TileNode lvl v s \<Rightarrow> True | _ \<Rightarrow> False) (mTable t))"

section \<open>Dense to sparse: \<open>CopyFromDense\<close>\<close>

text \<open>\<open>struct Block\<close>: its constructor sets \<open>bbox\<close> and a null \<open>leaf\<close>; \<open>tile\<close>, a
  \<open>std::pair\<close>, is value-initialised.\<close>

record 'v Block =
  bbox :: CoordBBox
  leaf :: "'v LeafT option"
  tile :: "'v \<times> bool"

definition Block_new :: "CoordBBox \<Rightarrow> ('v::zero) Block" where
  "Block_new b = \<lparr>bbox = b, leaf = None, tile = (0, False)\<rparr>"

text \<open>
  The members of \<open>CopyFromDense\<close>. \<open>mBlocks\<close> is passed along explicitly below. \<open>mAccessor\<close>
  is null for an empty tree and an accessor of the tree otherwise, in the constructor and
  in the copy constructor alike.
\<close>

record 'v CopyFromDense =
  mDense :: "'v Dense"
  mTree :: "'v Tree"
  mTolerance :: 'v
  mAccessor :: "'v Tree option"

definition CopyFromDense_new :: "'v Dense \<Rightarrow> 'v Tree \<Rightarrow> 'v \<Rightarrow> 'v CopyFromDense" where
  "CopyFromDense_new dense tree tolerance =
     \<lparr>mDense = dense, mTree = tree, mTolerance = tolerance,
      mAccessor = (if tree_empty tree then None else Some tree)\<rparr>"

definition CopyFromDense_copy_ctor :: "'v CopyFromDense \<Rightarrow> 'v CopyFromDense" where
  "CopyFromDense_copy_ctor other =
     \<lparr>mDense = mDense other, mTree = mTree other, mTolerance = mTolerance other,
      mAccessor = (case mAccessor other of None \<Rightarrow> None | Some a \<Rightarrow> Some (mTree other))\<rparr>"

subsection \<open>Partition: the three nested loops of \<open>copy\<close>\<close>

definition set_cx :: "Coord \<Rightarrow> int \<Rightarrow> Coord" where
  "set_cx c v = Coord v (cy c) (cz c)"

definition set_cy :: "Coord \<Rightarrow> int \<Rightarrow> Coord" where
  "set_cy c v = Coord (cx c) v (cz c)"

definition set_cz :: "Coord \<Rightarrow> int \<Rightarrow> Coord" where
  "set_cz c v = Coord (cx c) (cy c) v"

text \<open>
  The loops share the box \<open>sub\<close>, whose \<open>max\<close> is assigned in the innermost body only;
  each loop's step reads it. A loop that does not leave is the value \<open>None\<close>.
\<close>

definition block_max :: "nat \<Rightarrow> CoordBBox \<Rightarrow> CoordBBox \<Rightarrow> Coord" where
  "block_max lg box sub =
     minComponent (mMax box)
       (offsetBy (coord_and (mMin sub) (NOT (DIM lg - 1))) (DIM lg - 1))"

partial_function (option) loop_z ::
  "nat \<Rightarrow> CoordBBox \<Rightarrow> CoordBBox \<Rightarrow> ('v::zero) Block list \<Rightarrow> (CoordBBox \<times> 'v Block list) option" where
  "loop_z lg box sub blocks =
     (if cz (mMin sub) \<le> cz (mMax box)
      then loop_z lg box
             \<lparr>mMin = set_cz (mMin sub) (cz (block_max lg box sub) + 1), mMax = block_max lg box sub\<rparr>
             (blocks @ [Block_new (sub\<lparr>mMax := block_max lg box sub\<rparr>)])
      else Some (sub, blocks))"

partial_function (option) loop_y ::
  "nat \<Rightarrow> CoordBBox \<Rightarrow> CoordBBox \<Rightarrow> ('v::zero) Block list \<Rightarrow> (CoordBBox \<times> 'v Block list) option" where
  "loop_y lg box sub blocks =
     (if cy (mMin sub) \<le> cy (mMax box)
      then Option.bind (loop_z lg box (sub\<lparr>mMin := set_cz (mMin sub) (cz (mMin box))\<rparr>) blocks)
             (\<lambda>r. loop_y lg box ((fst r)\<lparr>mMin := set_cy (mMin (fst r)) (cy (mMax (fst r)) + 1)\<rparr>)
                    (snd r))
      else Some (sub, blocks))"

partial_function (option) loop_x ::
  "nat \<Rightarrow> CoordBBox \<Rightarrow> CoordBBox \<Rightarrow> ('v::zero) Block list \<Rightarrow> (CoordBBox \<times> 'v Block list) option" where
  "loop_x lg box sub blocks =
     (if cx (mMin sub) \<le> cx (mMax box)
      then Option.bind (loop_y lg box (sub\<lparr>mMin := set_cy (mMin sub) (cy (mMin box))\<rparr>) blocks)
             (\<lambda>r. loop_x lg box ((fst r)\<lparr>mMin := set_cx (mMin (fst r)) (cx (mMax (fst r)) + 1)\<rparr>)
                    (snd r))
      else Some (sub, blocks))"

declare loop_z.simps [code] loop_y.simps [code] loop_x.simps [code]

definition partition_blocks :: "nat \<Rightarrow> CoordBBox \<Rightarrow> ('v::zero) Block list option" where
  "partition_blocks lg box = map_option snd (loop_x lg box box [])"

subsection \<open>Synthesize: \<open>operator()\<close>\<close>

text \<open>The scratch leaf before the dense values are copied in.\<close>

definition init_scratch :: "nat \<Rightarrow> 'v CopyFromDense \<Rightarrow> CoordBBox \<Rightarrow> 'v LeafT \<Rightarrow> 'v LeafT" where
  "init_scratch lg op box scratch =
     (case mAccessor op of
        None \<Rightarrow> leaf_fill lg (background (mTree op)) False scratch
      | Some acc \<Rightarrow>
          (case probeConstLeaf lg acc (mMin box) of
             Some target \<Rightarrow> target
           | None \<Rightarrow>
               leaf_fill lg (snd (probeValue lg acc (mMin box)))
                            (fst (probeValue lg acc (mMin box))) scratch))"

text \<open>
  One turn of the loop over the blocks: the scratch leaf and the block go in, the next
  scratch leaf (the same one, or a new one when the block kept it) and the block come out.
\<close>

definition process_block ::
  "nat \<Rightarrow> ('v::linordered_idom) CopyFromDense \<Rightarrow> 'v LeafT \<Rightarrow> 'v Block \<Rightarrow> error + ('v LeafT \<times> 'v Block)" where
  "process_block lg op scratch block =
     (case leaf_copyFromDense lg (bbox block) (mDense op) (background (mTree op)) (mTolerance op)
             (init_scratch lg op (bbox block) scratch) of
        Inl e \<Rightarrow> Inl e
      | Inr l \<Rightarrow>
          (case leaf_isConstant (mTolerance op) l of
             Some t \<Rightarrow> Inr (l, block\<lparr>tile := t\<rparr>)
           | None \<Rightarrow> Inr (leaf_new lg, block\<lparr>leaf := Some (leaf_setOrigin (mMin (bbox block)) l)\<rparr>)))"

text \<open>
  The variables of one call of \<open>operator()\<close>: the index \<open>m\<close>, \<open>end\<close> and the scratch leaf.
\<close>

record 'v loop_state =
  ls_m :: nat
  ls_end :: nat
  ls_leaf :: "'v LeafT"

text \<open>
  One turn of \<open>for (m = r.begin(); m != end; ++m)\<close> on \<open>(*mBlocks)[m]\<close>; an index past
  the vector is an out-of-bounds access.
\<close>

definition loop_turn ::
  "nat \<Rightarrow> ('v::linordered_idom) CopyFromDense \<Rightarrow> 'v loop_state \<Rightarrow> 'v Block list
   \<Rightarrow> error + ('v loop_state \<times> 'v Block list)" where
  "loop_turn lg op st blocks =
     (if ls_m st < length blocks
      then (case process_block lg op (ls_leaf st) (blocks ! ls_m st) of
              Inl err \<Rightarrow> Inl err
            | Inr r \<Rightarrow> Inr (st\<lparr>ls_m := Suc (ls_m st), ls_leaf := fst r\<rparr>, blocks[ls_m st := snd r]))
      else Inl OutOfBounds)"

lemma loop_turn_decreases:
  "loop_turn lg op st blocks = Inr r \<Longrightarrow>
     length (snd r) - ls_m (fst r) < length blocks - ls_m st"
  by (auto simp: loop_turn_def split: if_splits sum.splits)

function operator_loop ::
  "nat \<Rightarrow> ('v::linordered_idom) CopyFromDense \<Rightarrow> 'v loop_state \<Rightarrow> 'v Block list
   \<Rightarrow> error + 'v Block list" where
  "operator_loop lg op st blocks =
     (if ls_m st = ls_end st then Inr blocks
      else (case loop_turn lg op st blocks of
              Inl err \<Rightarrow> Inl err
            | Inr r \<Rightarrow> operator_loop lg op (fst r) (snd r)))"
  by pat_completeness auto
termination
  by (relation "measure (\<lambda>(lg, op, st, blocks). length blocks - ls_m st)")
     (auto dest: loop_turn_decreases)

text \<open>\<open>operator()(r)\<close>: a new scratch leaf, then the loop from \<open>r.begin()\<close> to \<open>r.end()\<close>.\<close>

definition body_start :: "nat \<Rightarrow> nat \<times> nat \<Rightarrow> ('v::zero) loop_state" where
  "body_start lg r = \<lparr>ls_m = fst r, ls_end = snd r, ls_leaf = leaf_new lg\<rparr>"

definition operator_call ::
  "nat \<Rightarrow> ('v::linordered_idom) CopyFromDense \<Rightarrow> nat \<times> nat \<Rightarrow> 'v Block list \<Rightarrow> error + 'v Block list" where
  "operator_call lg op r blocks = operator_loop lg op (body_start lg r) blocks"

text \<open>
  Modelled from the spec: \<open>tbb::parallel_for\<close> is the scheduler's, not this
  repository's. It splits the range into the sub-ranges \<open>ranges\<close> and runs a copy of
  the body on each of them, the loops of the bodies taking their turns in any order:
  \<open>sched\<close> names, turn by turn, the body that moves (a body that has finished, or a
  number that names none, lets the turn pass). \<open>parallel_for\<close> returns when every body
  has finished, so the bodies that the schedule leaves unfinished run to their end.
  A turn is taken whole: it writes one slot of the block vector, which no other body
  touches, and reads the tree and the grid, which nobody writes.
\<close>

fun run_bodies ::
  "nat \<Rightarrow> ('v::linordered_idom) CopyFromDense \<Rightarrow> nat list \<Rightarrow> 'v loop_state list \<Rightarrow> 'v Block list
   \<Rightarrow> error + ('v loop_state list \<times> 'v Block list)" where
  "run_bodies lg op [] sts blocks = Inr (sts, blocks)"
| "run_bodies lg op (k # ks) sts blocks =
     (if k < length sts \<and> ls_m (sts ! k) \<noteq> ls_end (sts ! k)
      then (case loop_turn lg op (sts ! k) blocks of
              Inl err \<Rightarrow> Inl err
            | Inr r \<Rightarrow> run_bodies lg op ks (sts[k := fst r]) (snd r))
      else run_bodies lg op ks sts blocks)"

fun finish_bodies ::
  "nat \<Rightarrow> ('v::linordered_idom) CopyFromDense \<Rightarrow> 'v loop_state list \<Rightarrow> 'v Block list
   \<Rightarrow> error + 'v Block list" where
  "finish_bodies lg op [] blocks = Inr blocks"
| "finish_bodies lg op (st # sts) blocks =
     (case operator_loop lg op st blocks of
        Inl err \<Rightarrow> Inl err
      | Inr blocks' \<Rightarrow> finish_bodies lg op sts blocks')"

definition parallel_for ::
  "nat \<Rightarrow> (nat \<times> nat) list \<Rightarrow> nat list \<Rightarrow> ('v::linordered_idom) CopyFromDense \<Rightarrow> 'v Block list
   \<Rightarrow> error + 'v Block list" where
  "parallel_for lg ranges sched op blocks =
     (case run_bodies lg (CopyFromDense_copy_ctor op) sched (map (body_start lg) ranges) blocks of
        Inl err \<Rightarrow> Inl err
      | Inr r \<Rightarrow> finish_bodies lg (CopyFromDense_copy_ctor op) (fst r) (snd r))"

text \<open>What the scheduler guarantees: every index of the range is in exactly one sub-range.\<close>

definition splits_range :: "nat \<Rightarrow> (nat \<times> nat) list \<Rightarrow> bool" where
  "splits_range n ranges \<longleftrightarrow>
     list_all (\<lambda>r. fst r \<le> snd r \<and> snd r \<le> n) ranges \<and>
     list_all (\<lambda>i. length (filter (\<lambda>r. fst r \<le> i \<and> i < snd r) ranges) = 1) [0..<n]"

subsection \<open>Merge and prune\<close>

definition merge_block :: "nat \<Rightarrow> 'v Block \<Rightarrow> 'v Tree \<Rightarrow> 'v Tree" where
  "merge_block lg block t =
     (case leaf block of
        Some l \<Rightarrow> addLeaf lg l t
      | None \<Rightarrow>
          if snd (tile block) then addTile lg 1 (mMin (bbox block)) (fst (tile block)) True t
          else t)"

definition merge_blocks :: "nat \<Rightarrow> 'v Block list \<Rightarrow> 'v Tree \<Rightarrow> 'v Tree" where
  "merge_blocks lg blocks t = fold (merge_block lg) blocks t"

text \<open>
  \<open>CopyFromDense::copy\<close> up to the call of \<open>pruneTiles\<close>: the partition, the
  conversion of the blocks (one call of \<open>operator()\<close> on the whole range, or
  \<open>parallel_for\<close>) and the insertion into the tree. The result is \<open>None\<close> when the
  partition does not return, an error when a block reads outside the grid's array, and
  the tree otherwise.
\<close>

definition insert_blocks ::
  "nat \<Rightarrow> (nat \<times> nat) list \<Rightarrow> nat list \<Rightarrow> ('v::linordered_idom) CopyFromDense \<Rightarrow> bool
   \<Rightarrow> (error + 'v Tree) option" where
  "insert_blocks lg ranges sched op serial =
     (case partition_blocks lg (mBBox (mDense op)) of
        None \<Rightarrow> None
      | Some blocks \<Rightarrow>
          Some (case (if serial then operator_call lg op (0, length blocks) blocks
                      else parallel_for lg ranges sched op blocks) of
                  Inl err \<Rightarrow> Inl err
                | Inr blocks' \<Rightarrow> Inr (merge_blocks lg blocks' (mTree op))))"

text \<open>
  \<open>CopyFromDense::copy\<close>. Modelled from the spec: \<open>pruneTiles\<close> is a function of the tree's
  root node, "treated purely as an opaque external call" that collapses uniform regions
  of several leaf cells into coarser tiles; it is the parameter \<open>prune\<close>.
\<close>

definition copy ::
  "('v \<Rightarrow> 'v Tree \<Rightarrow> 'v Tree) \<Rightarrow> nat \<Rightarrow> (nat \<times> nat) list \<Rightarrow> nat list
   \<Rightarrow> ('v::linordered_idom) CopyFromDense \<Rightarrow> bool \<Rightarrow> (error + 'v Tree) option" where
  "copy prune lg ranges sched op serial =
     (case insert_blocks lg ranges sched op serial of
        None \<Rightarrow> None
      | Some (Inl err) \<Rightarrow> Some (Inl err)
      | Some (Inr t) \<Rightarrow> Some (Inr (prune (mTolerance op) t)))"

text \<open>The wrapper \<open>copyFromDense(dense, sparse, tolerance, serial)\<close>.\<close>

definition copyFromDense ::
  "('v \<Rightarrow> 'v Tree \<Rightarrow> 'v Tree) \<Rightarrow> nat \<Rightarrow> (nat \<times> nat) list \<Rightarrow> nat list
   \<Rightarrow> ('v::linordered_idom) Dense \<Rightarrow> 'v Tree \<Rightarrow> 'v \<Rightarrow> bool \<Rightarrow> (error + 'v Tree) option" where
  "copyFromDense prune lg ranges sched dense sparse tolerance serial =
     copy prune lg ranges sched (CopyFromDense_new dense sparse tolerance) serial"

section \<open>Sparse to dense: \<open>CopyToDense\<close>\<close>

text \<open>
  Modelled from the spec: the root node's \<open>copyToDense(bbox, dense)\<close> is not among the
  sources. It is the spec's \<open>tree.copyToDenseBox(box, denseGridSink)\<close>, which populates
  the sink "for all voxels in box, both active and inactive": each coordinate of the box
  receives the value the tree has there, through the grid's array.
\<close>

definition dense_write :: "'v Dense \<Rightarrow> Coord \<Rightarrow> 'v \<Rightarrow> error + 'v Dense" where
  "dense_write d c v =
     (if isInside (mBBox d) c
      then setValue_offset d (coordToOffset d (nat (cx c - cx (mMin (mBBox d))))
                                              (nat (cy c - cy (mMin (mBBox d))))
                                              (nat (cz c - cz (mMin (mBBox d))))) v
      else Inl OutOfBounds)"

fun write_voxels :: "nat \<Rightarrow> 'v Tree \<Rightarrow> Coord list \<Rightarrow> 'v Dense \<Rightarrow> error + 'v Dense" where
  "write_voxels lg t [] d = Inr d"
| "write_voxels lg t (c # cs) d =
     (case dense_write d c (snd (probeValue lg t c)) of
        Inl e \<Rightarrow> Inl e
      | Inr d' \<Rightarrow> write_voxels lg t cs d')"

definition root_copyToDense :: "nat \<Rightarrow> 'v Tree \<Rightarrow> CoordBBox \<Rightarrow> 'v Dense \<Rightarrow> error + 'v Dense" where
  "root_copyToDense lg t box d = write_voxels lg t (box_coords box) d"

text \<open>
  Modelled from the spec: \<open>tbb::parallel_for\<close> over the grid's box, "split by a
  work-stealing scheduler into sub-boxes, each independently handed to the same recursive
  copy operation". \<open>subs\<close> lists the sub-boxes in the order in which \<open>operator()\<close> runs
  on them; what the scheduler guarantees is that they lie in the box and cover it.
\<close>

fun parallel_for_box :: "nat \<Rightarrow> CoordBBox list \<Rightarrow> 'v Tree \<Rightarrow> 'v Dense \<Rightarrow> error + 'v Dense" where
  "parallel_for_box lg [] t d = Inr d"
| "parallel_for_box lg (s # ss) t d =
     (case root_copyToDense lg t s d of
        Inl e \<Rightarrow> Inl e
      | Inr d' \<Rightarrow> parallel_for_box lg ss t d')"

definition splits_box :: "CoordBBox \<Rightarrow> CoordBBox list \<Rightarrow> bool" where
  "splits_box box subs \<longleftrightarrow>
     list_all (\<lambda>s. list_all (isInside box) (box_coords s)) subs \<and>
     list_all (\<lambda>c. list_ex (\<lambda>s. isInside s c) subs) (box_coords box)"

text \<open>\<open>CopyToDense::copy\<close> and the wrapper \<open>copyToDense(sparse, dense, serial)\<close>.\<close>

definition CopyToDense_copy ::
  "nat \<Rightarrow> CoordBBox list \<Rightarrow> 'v Tree \<Rightarrow> 'v Dense \<Rightarrow> bool \<Rightarrow> error + 'v Dense" where
  "CopyToDense_copy lg subs tree dense serial =
     (if serial then root_copyToDense lg tree (mBBox dense) dense
      else parallel_for_box lg subs tree dense)"

definition copyToDense ::
  "nat \<Rightarrow> CoordBBox list \<Rightarrow> 'v Tree \<Rightarrow> 'v Dense \<Rightarrow> bool \<Rightarrow> error + 'v Dense" where
  "copyToDense lg subs sparse dense serial = CopyToDense_copy lg subs sparse dense serial"

section \<open>Facts about the dense grid\<close>

lemma offset_bound:
  fixes i j k dx dy dz :: nat
  assumes "i < dx" "j < dy" "k < dz"
  shows "k + j * dz + i * (dz * dy) < dx * dy * dz"
proof -
  have "k + j * dz < dy * dz"
  proof -
    have "k + j * dz < dz + j * dz" using assms(3) by simp
    also have "\<dots> = (Suc j) * dz" by simp
    also have "\<dots> \<le> dy * dz" using assms(2) by (intro mult_le_mono1) simp
    finally show ?thesis .
  qed
  then have "k + j * dz + i * (dz * dy) < dy * dz + i * (dz * dy)" by simp
  also have "\<dots> = (Suc i) * (dy * dz)" by (simp add: mult.commute)
  also have "\<dots> \<le> dx * (dy * dz)" using assms(1) by (intro mult_le_mono1) simp
  finally show ?thesis by (simp add: mult.assoc)
qed

lemma offset_decode:
  fixes i j k dy dz :: nat
  assumes "j < dy" "k < dz"
  shows "(k + j * dz + i * (dz * dy)) div (dz * dy) = i"
    and "((k + j * dz + i * (dz * dy)) mod (dz * dy)) div dz = j"
    and "((k + j * dz + i * (dz * dy)) mod (dz * dy)) mod dz = k"
proof -
  have lt: "k + j * dz < dz * dy"
    using offset_bound [of 0 1 j dy k dz] assms by (simp add: mult.commute)
  then have pos: "0 < dz * dy" by linarith
  show "(k + j * dz + i * (dz * dy)) div (dz * dy) = i"
    using lt pos by (simp add: div_mult_self1)
  have m: "(k + j * dz + i * (dz * dy)) mod (dz * dy) = k + j * dz"
    using lt by simp
  show "((k + j * dz + i * (dz * dy)) mod (dz * dy)) div dz = j"
    unfolding m using assms(2) by simp
  show "((k + j * dz + i * (dz * dy)) mod (dz * dy)) mod dz = k"
    unfolding m using assms(2) by simp
qed





lemma inside_local:
  assumes "isInside b c"
  shows "nat (cx c - cx (mMin b)) < nat (cx (bbox_dim b))"
    and "nat (cy c - cy (mMin b)) < nat (cy (bbox_dim b))"
    and "nat (cz c - cz (mMin b)) < nat (cz (bbox_dim b))"
  using assms by (auto simp: isInside_def bbox_dim_def)

lemma inside_offset_lt:
  assumes "dense_ok d" "isInside (mBBox d) c"
  shows "coordToOffset d (nat (cx c - cx (mMin (mBBox d)))) (nat (cy c - cy (mMin (mBBox d))))
           (nat (cz c - cz (mMin (mBBox d)))) < volume (mBBox d)"
proof -
  have s: "mY d = nat (cz (bbox_dim (mBBox d)))"
          "mX d = nat (cz (bbox_dim (mBBox d))) * nat (cy (bbox_dim (mBBox d)))"
    using assms(1) by (simp_all add: dense_ok_def)
  show ?thesis
    unfolding coordToOffset_def s volume_def
    by (rule offset_bound) (rule inside_local [OF assms(2)])+
qed





text \<open>
  Claim C10. In a grid as the constructors build it, the accessors by coordinate are safe
  when \<open>xyz\<close> lies in the box: the assertion holds, the offset is below \<open>volume\<close>,
  and the value is read or written there; outside the box the assertion fails. The
  accessors by offset are safe for an offset below \<open>volume\<close>, and they check nothing: an
  offset past the array is an out-of-bounds access, never a failed assertion.
\<close>

theorem accessors_safety:
  assumes "dense_ok d"
  shows "(isInside (mBBox d) xyz \<longrightarrow>
            (\<exists>off. coordToOffset_xyz d xyz = Inr off \<and> off < volume (mBBox d) \<and>
                   getValue_xyz d xyz = Inr (mData d ! off) \<and>
                   setValue_xyz d xyz v = Inr (d\<lparr>mData := (mData d)[off := v]\<rparr>))) \<and>
         (\<not> isInside (mBBox d) xyz \<longrightarrow>
            getValue_xyz d xyz = Inl AssertionFailure \<and>
            setValue_xyz d xyz v = Inl AssertionFailure) \<and>
         (n < volume (mBBox d) \<longrightarrow>
            getValue_offset d n = Inr (mData d ! n) \<and>
            setValue_offset d n v = Inr (d\<lparr>mData := (mData d)[n := v]\<rparr>)) \<and>
         (length (mData d) \<le> n \<longrightarrow>
            getValue_offset d n = Inl OutOfBounds \<and>
            setValue_offset d n v = Inl OutOfBounds) \<and>
         getValue_offset d n \<noteq> Inl AssertionFailure \<and>
         setValue_offset d n v \<noteq> Inl AssertionFailure"
proof -
  have len: "volume (mBBox d) \<le> length (mData d)"
    using assms by (simp add: dense_ok_def)
  have inside: "isInside (mBBox d) xyz \<longrightarrow>
            (\<exists>off. coordToOffset_xyz d xyz = Inr off \<and> off < volume (mBBox d) \<and>
                   getValue_xyz d xyz = Inr (mData d ! off) \<and>
                   setValue_xyz d xyz v = Inr (d\<lparr>mData := (mData d)[off := v]\<rparr>))"
  proof
    assume i: "isInside (mBBox d) xyz"
    let ?off = "coordToOffset d (nat (cx xyz - cx (mMin (mBBox d))))
        (nat (cy xyz - cy (mMin (mBBox d)))) (nat (cz xyz - cz (mMin (mBBox d))))"
    have lt: "?off < volume (mBBox d)" by (rule inside_offset_lt [OF assms i])
    have c: "coordToOffset_xyz d xyz = Inr ?off" using i by (simp add: coordToOffset_xyz_def)
    have g: "getValue_xyz d xyz = Inr (mData d ! ?off)"
      using lt len by (simp add: getValue_xyz_def c getValue_offset_def)
    have s: "setValue_xyz d xyz v = Inr (d\<lparr>mData := (mData d)[?off := v]\<rparr>)"
      using lt len by (simp add: setValue_xyz_def c setValue_offset_def)
    show "\<exists>off. coordToOffset_xyz d xyz = Inr off \<and> off < volume (mBBox d) \<and>
                   getValue_xyz d xyz = Inr (mData d ! off) \<and>
                   setValue_xyz d xyz v = Inr (d\<lparr>mData := (mData d)[off := v]\<rparr>)"
      using c lt g s by blast
  qed
  have outside: "\<not> isInside (mBBox d) xyz \<longrightarrow>
            getValue_xyz d xyz = Inl AssertionFailure \<and>
            setValue_xyz d xyz v = Inl AssertionFailure"
    by (simp add: getValue_xyz_def setValue_xyz_def coordToOffset_xyz_def)
  have off_ok: "n < volume (mBBox d) \<longrightarrow>
            getValue_offset d n = Inr (mData d ! n) \<and>
            setValue_offset d n v = Inr (d\<lparr>mData := (mData d)[n := v]\<rparr>)"
    using len by (simp add: getValue_offset_def setValue_offset_def)
  have off_bad: "length (mData d) \<le> n \<longrightarrow>
            getValue_offset d n = Inl OutOfBounds \<and>
            setValue_offset d n v = Inl OutOfBounds"
    by (simp add: getValue_offset_def setValue_offset_def)
  have no_assert: "getValue_offset d n \<noteq> Inl AssertionFailure"
                  "setValue_offset d n v \<noteq> Inl AssertionFailure"
    by (simp_all add: getValue_offset_def setValue_offset_def)
  show ?thesis using inside outside off_ok off_bad no_assert by blast
qed

theorem accessors_safety_witness:
  "dense_ok (dense_fields \<lparr>mMin = Coord (- 1) 0 3, mMax = Coord 0 1 4\<rparr> [10, 11, 12, 13, 14, 15, 16, 17::int]) \<and>
   getValue_xyz (dense_fields \<lparr>mMin = Coord (- 1) 0 3, mMax = Coord 0 1 4\<rparr> [10, 11, 12, 13, 14, 15, 16, 17::int])
      (Coord 0 0 4) = Inr 15 \<and>
   getValue_xyz (dense_fields \<lparr>mMin = Coord (- 1) 0 3, mMax = Coord 0 1 4\<rparr> [10, 11, 12, 13, 14, 15, 16, 17::int])
      (Coord 1 0 4) = Inl AssertionFailure \<and>
   getValue_offset (dense_fields \<lparr>mMin = Coord (- 1) 0 3, mMax = Coord 0 1 4\<rparr> [10, 11, 12, 13, 14, 15, 16, 17::int])
      7 = Inr 17 \<and>
   getValue_offset (dense_fields \<lparr>mMin = Coord (- 1) 0 3, mMax = Coord 0 1 4\<rparr> [10, 11, 12, 13, 14, 15, 16, 17::int])
      8 = Inl OutOfBounds"
proof -
  let ?d = "dense_fields \<lparr>mMin = Coord (- 1) 0 3, mMax = Coord 0 1 4\<rparr> [10, 11, 12, 13, 14, 15, 16, 17::int]"
  have ok: "dense_ok ?d"
    by (simp add: dense_ok_def dense_fields_def bbox_empty_def bbox_dim_def volume_def)
  have v: "volume (mBBox ?d) = 8" by (simp add: dense_fields_def bbox_dim_def volume_def)
  have i: "isInside (mBBox ?d) (Coord 0 0 4)" "\<not> isInside (mBBox ?d) (Coord 1 0 4)"
    by (simp_all add: dense_fields_def isInside_def)
  have o: "coordToOffset_xyz ?d (Coord 0 0 4) = Inr 5"
    by (simp add: coordToOffset_xyz_def coordToOffset_def dense_fields_def isInside_def bbox_dim_def)
  have l: "mData ?d ! 5 = 15" "mData ?d ! 7 = 17" "length (mData ?d) = 8"
    by (simp_all add: dense_fields_def)
  from accessors_safety [OF ok, of "Coord 0 0 4" 0 7] i(1) o l v
  have a: "getValue_xyz ?d (Coord 0 0 4) = Inr 15" "getValue_offset ?d 7 = Inr 17"
    by auto
  from accessors_safety [OF ok, of "Coord 1 0 4" 0 8] i(2) l
  have b: "getValue_xyz ?d (Coord 1 0 4) = Inl AssertionFailure" "getValue_offset ?d 8 = Inl OutOfBounds"
    by auto
  show ?thesis using ok a b by simp
qed

section \<open>The partition of the box\<close>

text \<open>
  Clearing the low bits of a coordinate rounds it down to a multiple of \<open>DIM\<close>, for
  negative coordinates too.
\<close>

lemma and_not_mask_shift: "(x::int) AND NOT (mask n) = push_bit n (drop_bit n x)"
  by (rule bit_eqI) (auto simp: bit_simps)

lemma and_not_mask_int: "(x::int) AND NOT (mask n) = x - x mod 2 ^ n"
proof -
  have "push_bit n (drop_bit n x) + take_bit n x = x" by (rule bits_ident)
  then show ?thesis by (simp add: and_not_mask_shift take_bit_eq_mod)
qed

lemma align_pow: "(x::int) AND NOT (2 ^ lg - 1) = x - x mod 2 ^ lg"
  by (simp add: and_not_mask_int flip: mask_eq_exp_minus_1)

lemma align_eq: "x AND NOT (DIM lg - 1) = x - x mod 2 ^ lg"
  by (simp add: DIM_def and_not_mask_int flip: mask_eq_exp_minus_1)

lemma and_dim_eq: "x AND (DIM lg - 1) = x mod 2 ^ lg"
  by (simp add: DIM_def take_bit_eq_mod flip: mask_eq_exp_minus_1 take_bit_eq_mask)

text \<open>
  One axis of the partition: from \<open>lo\<close>, a segment ends at the end of the leaf cell it
  starts in or at \<open>hi\<close>, whichever comes first, and the next one starts right after.
\<close>

definition seg_end :: "nat \<Rightarrow> int \<Rightarrow> int \<Rightarrow> int" where
  "seg_end lg hi lo = min hi ((lo AND NOT (DIM lg - 1)) + (DIM lg - 1))"

lemma align_le: "x AND NOT (DIM lg - 1) \<le> x"
  by (simp add: align_eq)

lemma align_end_ge: "x \<le> (x AND NOT (DIM lg - 1)) + (DIM lg - 1)"
proof -
  have "x mod 2 ^ lg < (2::int) ^ lg" by simp
  then show ?thesis using align_eq [of x lg] by (simp add: DIM_def)
qed

lemma seg_end_ge: "lo \<le> hi \<Longrightarrow> lo \<le> seg_end lg hi lo"
  using align_end_ge [of lo lg] by (simp add: seg_end_def)

lemma seg_end_le: "seg_end lg hi lo \<le> hi"
  by (simp add: seg_end_def)

function segs :: "nat \<Rightarrow> int \<Rightarrow> int \<Rightarrow> (int \<times> int) list" where
  "segs lg lo hi =
     (if lo \<le> hi then (lo, seg_end lg hi lo) # segs lg (seg_end lg hi lo + 1) hi else [])"
  by pat_completeness auto
termination
proof (relation "measure (\<lambda>(lg, lo, hi). nat (hi + 1 - lo))")
  show "wf (measure (\<lambda>(lg, lo, hi). nat (hi + 1 - lo)))" by simp
next
  fix lg :: nat and lo hi :: int
  assume "lo \<le> hi"
  then show "((lg, seg_end lg hi lo + 1, hi), (lg, lo, hi)) \<in> measure (\<lambda>(lg, lo, hi). nat (hi + 1 - lo))"
    using seg_end_ge [of lo hi lg] by simp
qed

declare segs.simps [simp del]

lemma block_max_eq:
  "block_max lg box sub =
     Coord (seg_end lg (cx (mMax box)) (cx (mMin sub)))
           (seg_end lg (cy (mMax box)) (cy (mMin sub)))
           (seg_end lg (cz (mMax box)) (cz (mMin sub)))"
  by (simp add: block_max_def minComponent_def offsetBy_def coord_and_def seg_end_def)

text \<open>
  The blocks the loops emit, written as lists: for each segment of x, for each segment
  of y, for each segment of z, one block.
\<close>

definition z_blocks :: "nat \<Rightarrow> CoordBBox \<Rightarrow> int \<Rightarrow> int \<Rightarrow> int \<Rightarrow> int \<Rightarrow> int \<Rightarrow> ('v::zero) Block list" where
  "z_blocks lg box xa xb ya yb z =
     map (\<lambda>s. Block_new \<lparr>mMin = Coord xa ya (fst s), mMax = Coord xb yb (snd s)\<rparr>)
         (segs lg z (cz (mMax box)))"

lemma loop_z_result:
  "\<exists>sub'. loop_z lg box sub blocks =
       Some (sub', blocks @ z_blocks lg box (cx (mMin sub)) (seg_end lg (cx (mMax box)) (cx (mMin sub)))
                                     (cy (mMin sub)) (seg_end lg (cy (mMax box)) (cy (mMin sub)))
                                     (cz (mMin sub))) \<and>
     cx (mMin sub') = cx (mMin sub) \<and> cy (mMin sub') = cy (mMin sub) \<and>
     (cz (mMin sub) \<le> cz (mMax box) \<longrightarrow>
        cx (mMax sub') = seg_end lg (cx (mMax box)) (cx (mMin sub)) \<and>
        cy (mMax sub') = seg_end lg (cy (mMax box)) (cy (mMin sub)))"
proof (induction lg "cz (mMin sub)" "cz (mMax box)" arbitrary: sub blocks rule: segs.induct)
  case (1 lg)
  show ?case
  proof (cases "cz (mMin sub) \<le> cz (mMax box)")
    case False
    then show ?thesis
      by (subst loop_z.simps) (simp add: z_blocks_def segs.simps [of lg "cz (mMin sub)"])
  next
    case True
    let ?sub1 = "\<lparr>mMin = set_cz (mMin sub) (cz (block_max lg box sub) + 1), mMax = block_max lg box sub\<rparr>"
    let ?b1 = "blocks @ [Block_new (sub\<lparr>mMax := block_max lg box sub\<rparr>)]"
    have z1: "seg_end lg (cz (mMax box)) (cz (mMin sub)) + 1 = cz (mMin ?sub1)"
      by (simp add: block_max_eq set_cz_def)
    from "1.hyps" [OF True z1] obtain sub' where
      r: "loop_z lg box ?sub1 ?b1 =
            Some (sub', ?b1 @ z_blocks lg box (cx (mMin ?sub1)) (seg_end lg (cx (mMax box)) (cx (mMin ?sub1)))
                                     (cy (mMin ?sub1)) (seg_end lg (cy (mMax box)) (cy (mMin ?sub1)))
                                     (cz (mMin ?sub1)))"
      and m: "cx (mMin sub') = cx (mMin ?sub1)" "cy (mMin sub') = cy (mMin ?sub1)"
      and x: "cz (mMin ?sub1) \<le> cz (mMax box) \<longrightarrow>
        cx (mMax sub') = seg_end lg (cx (mMax box)) (cx (mMin ?sub1)) \<and>
        cy (mMax sub') = seg_end lg (cy (mMax box)) (cy (mMin ?sub1))"
      by blast
    have unf: "loop_z lg box sub blocks = loop_z lg box ?sub1 ?b1"
      using True by (subst loop_z.simps) simp
    have mx: "cx (mMax sub') = seg_end lg (cx (mMax box)) (cx (mMin sub)) \<and>
              cy (mMax sub') = seg_end lg (cy (mMax box)) (cy (mMin sub))"
    proof (cases "cz (mMin ?sub1) \<le> cz (mMax box)")
      case True
      with x show ?thesis by (simp add: set_cz_def)
    next
      case False
      then have "loop_z lg box ?sub1 ?b1 = Some (?sub1, ?b1)"
        by (subst loop_z.simps) simp
      with r have "sub' = ?sub1" by simp
      then show ?thesis by (simp add: block_max_eq)
    qed
    have blk: "sub\<lparr>mMax := c\<rparr> = \<lparr>mMin = mMin sub, mMax = c\<rparr>" for c
      by (cases sub) simp
    have "?b1 @ z_blocks lg box (cx (mMin ?sub1)) (seg_end lg (cx (mMax box)) (cx (mMin ?sub1)))
                                     (cy (mMin ?sub1)) (seg_end lg (cy (mMax box)) (cy (mMin ?sub1)))
                                     (cz (mMin ?sub1))
          = blocks @ z_blocks lg box (cx (mMin sub)) (seg_end lg (cx (mMax box)) (cx (mMin sub)))
                                     (cy (mMin sub)) (seg_end lg (cy (mMax box)) (cy (mMin sub)))
                                     (cz (mMin sub))"
      using True
      by (simp add: z_blocks_def segs.simps [of lg "cz (mMin sub)"] blk set_cz_def block_max_eq)
    with r unf m mx show ?thesis by (simp add: set_cz_def)
  qed
qed


definition y_blocks :: "nat \<Rightarrow> CoordBBox \<Rightarrow> int \<Rightarrow> int \<Rightarrow> int \<Rightarrow> ('v::zero) Block list" where
  "y_blocks lg box xa xb y =
     concat (map (\<lambda>s. z_blocks lg box xa xb (fst s) (snd s) (cz (mMin box)))
                 (segs lg y (cy (mMax box))))"

definition x_blocks :: "nat \<Rightarrow> CoordBBox \<Rightarrow> int \<Rightarrow> ('v::zero) Block list" where
  "x_blocks lg box x =
     concat (map (\<lambda>s. y_blocks lg box (fst s) (snd s) (cy (mMin box)))
                 (segs lg x (cx (mMax box))))"

lemma loop_y_result:
  assumes zne: "cz (mMin box) \<le> cz (mMax box)"
  shows "\<exists>sub'. loop_y lg box sub blocks =
       Some (sub', blocks @ y_blocks lg box (cx (mMin sub)) (seg_end lg (cx (mMax box)) (cx (mMin sub)))
                                     (cy (mMin sub))) \<and>
     cx (mMin sub') = cx (mMin sub) \<and>
     (cy (mMin sub) \<le> cy (mMax box) \<longrightarrow>
        cx (mMax sub') = seg_end lg (cx (mMax box)) (cx (mMin sub)))"
proof (induction lg "cy (mMin sub)" "cy (mMax box)" arbitrary: sub blocks rule: segs.induct)
  case (1 lg)
  show ?case
  proof (cases "cy (mMin sub) \<le> cy (mMax box)")
    case False
    then show ?thesis
      by (subst loop_y.simps) (simp add: y_blocks_def segs.simps [of lg "cy (mMin sub)"])
  next
    case True
    let ?sx = "seg_end lg (cx (mMax box)) (cx (mMin sub))"
    let ?sy = "seg_end lg (cy (mMax box)) (cy (mMin sub))"
    let ?sub0 = "sub\<lparr>mMin := set_cz (mMin sub) (cz (mMin box))\<rparr>"
    have m0: "cx (mMin ?sub0) = cx (mMin sub)" "cy (mMin ?sub0) = cy (mMin sub)"
             "cz (mMin ?sub0) = cz (mMin box)"
      by (simp_all add: set_cz_def)
    from loop_z_result [of lg box ?sub0 blocks] obtain sub1 where
      z: "loop_z lg box ?sub0 blocks =
            Some (sub1, blocks @ z_blocks lg box (cx (mMin sub)) ?sx (cy (mMin sub)) ?sy (cz (mMin box)))"
      and m1: "cx (mMin sub1) = cx (mMin sub)" "cy (mMin sub1) = cy (mMin sub)"
      and x1: "cx (mMax sub1) = ?sx" "cy (mMax sub1) = ?sy"
      unfolding m0 using zne by blast
    let ?sub2 = "sub1\<lparr>mMin := set_cy (mMin sub1) (cy (mMax sub1) + 1)\<rparr>"
    let ?b1 = "blocks @ z_blocks lg box (cx (mMin sub)) ?sx (cy (mMin sub)) ?sy (cz (mMin box))"
    have m2: "cx (mMin ?sub2) = cx (mMin sub)" "cy (mMin ?sub2) = ?sy + 1" "cx (mMax ?sub2) = ?sx"
      using m1 x1 by (simp_all add: set_cy_def)
    from "1.hyps" [OF True m2(2) [symmetric], of ?b1] obtain sub' where
      r: "loop_y lg box ?sub2 ?b1 = Some (sub', ?b1 @ y_blocks lg box (cx (mMin sub)) ?sx (?sy + 1))"
      and m: "cx (mMin sub') = cx (mMin sub)"
      and x: "?sy + 1 \<le> cy (mMax box) \<longrightarrow> cx (mMax sub') = ?sx"
      unfolding m2 by blast
    have unf: "loop_y lg box sub blocks = loop_y lg box ?sub2 ?b1"
      using True by (subst loop_y.simps) (simp add: z)
    have mx: "cx (mMax sub') = ?sx"
    proof (cases "?sy + 1 \<le> cy (mMax box)")
      case True
      with x show ?thesis by simp
    next
      case False
      then have "loop_y lg box ?sub2 ?b1 = Some (?sub2, ?b1)"
        using m2 by (subst loop_y.simps) simp
      with r have "sub' = ?sub2" by simp
      then show ?thesis using m2 by simp
    qed
    have "?b1 @ y_blocks lg box (cx (mMin sub)) ?sx (?sy + 1)
          = blocks @ y_blocks lg box (cx (mMin sub)) ?sx (cy (mMin sub))"
      using True by (simp add: y_blocks_def segs.simps [of lg "cy (mMin sub)"])
    with r unf m mx show ?thesis by simp
  qed
qed

lemma loop_x_result:
  assumes zne: "cz (mMin box) \<le> cz (mMax box)" and yne: "cy (mMin box) \<le> cy (mMax box)"
  shows "\<exists>sub'. loop_x lg box sub blocks = Some (sub', blocks @ x_blocks lg box (cx (mMin sub)))"
proof (induction lg "cx (mMin sub)" "cx (mMax box)" arbitrary: sub blocks rule: segs.induct)
  case (1 lg)
  show ?case
  proof (cases "cx (mMin sub) \<le> cx (mMax box)")
    case False
    then show ?thesis
      by (subst loop_x.simps) (simp add: x_blocks_def segs.simps [of lg "cx (mMin sub)"])
  next
    case True
    let ?sx = "seg_end lg (cx (mMax box)) (cx (mMin sub))"
    let ?sub0 = "sub\<lparr>mMin := set_cy (mMin sub) (cy (mMin box))\<rparr>"
    have m0: "cx (mMin ?sub0) = cx (mMin sub)" "cy (mMin ?sub0) = cy (mMin box)"
      by (simp_all add: set_cy_def)
    from loop_y_result [OF zne, of lg ?sub0 blocks] obtain sub1 where
      y: "loop_y lg box ?sub0 blocks =
            Some (sub1, blocks @ y_blocks lg box (cx (mMin sub)) ?sx (cy (mMin box)))"
      and m1: "cx (mMin sub1) = cx (mMin sub)"
      and x1: "cx (mMax sub1) = ?sx"
      unfolding m0 using yne by blast
    let ?sub2 = "sub1\<lparr>mMin := set_cx (mMin sub1) (cx (mMax sub1) + 1)\<rparr>"
    let ?b1 = "blocks @ y_blocks lg box (cx (mMin sub)) ?sx (cy (mMin box))"
    have m2: "cx (mMin ?sub2) = ?sx + 1"
      using x1 by (simp add: set_cx_def)
    from "1.hyps" [OF True m2 [symmetric], of ?b1] obtain sub' where
      r: "loop_x lg box ?sub2 ?b1 = Some (sub', ?b1 @ x_blocks lg box (?sx + 1))"
      unfolding m2 by blast
    have unf: "loop_x lg box sub blocks = loop_x lg box ?sub2 ?b1"
      using True by (subst loop_x.simps) (simp add: y)
    have "?b1 @ x_blocks lg box (?sx + 1) = blocks @ x_blocks lg box (cx (mMin sub))"
      using True by (simp add: x_blocks_def segs.simps [of lg "cx (mMin sub)"])
    with r unf show ?thesis by simp
  qed
qed

definition grid_blocks :: "nat \<Rightarrow> CoordBBox \<Rightarrow> ('v::zero) Block list" where
  "grid_blocks lg box = x_blocks lg box (cx (mMin box))"

lemma partition_blocks_eq:
  assumes "\<not> bbox_empty box"
  shows "partition_blocks lg box = Some (grid_blocks lg box)"
proof -
  have ne: "cz (mMin box) \<le> cz (mMax box)" "cy (mMin box) \<le> cy (mMax box)"
    using assms by (auto simp: bbox_empty_def)
  from loop_x_result [OF ne, of lg box "[]"] show ?thesis
    by (auto simp: partition_blocks_def grid_blocks_def)
qed

lemma segs_props:
  "s \<in> set (segs lg lo hi) \<Longrightarrow>
     lo \<le> fst s \<and> fst s \<le> snd s \<and> snd s \<le> hi \<and> snd s = seg_end lg hi (fst s) \<and>
     (fst s = lo \<or> fst s AND NOT (DIM lg - 1) = fst s)"
proof (induction lg lo hi rule: segs.induct)
  case (1 lg lo hi)
  show ?case
  proof (cases "lo \<le> hi")
    case False
    with "1.prems" show ?thesis by (simp add: segs.simps [of lg lo hi])
  next
    case True
    let ?e = "seg_end lg hi lo"
    have e: "lo \<le> ?e" "?e \<le> hi" using True by (simp_all add: seg_end_ge seg_end_le)
    from "1.prems" True have "s = (lo, ?e) \<or> s \<in> set (segs lg (?e + 1) hi)"
      by (simp add: segs.simps [of lg lo hi])
    then show ?thesis
    proof
      assume "s = (lo, ?e)"
      then show ?thesis using e by simp
    next
      assume in_rest: "s \<in> set (segs lg (?e + 1) hi)"
      from "1.IH" [OF True in_rest]
      have ih: "?e + 1 \<le> fst s" "fst s \<le> snd s" "snd s \<le> hi" "snd s = seg_end lg hi (fst s)"
               "fst s = ?e + 1 \<or> fst s AND NOT (DIM lg - 1) = fst s"
        by simp_all
      have "?e + 1 \<le> hi" using ih by linarith
      then have "?e = (lo AND NOT (DIM lg - 1)) + (DIM lg - 1)"
        by (simp add: seg_end_def min_def split: if_splits)
      then have "?e + 1 = lo - lo mod 2 ^ lg + 2 ^ lg"
        by (simp add: align_pow DIM_def)
      moreover have "lo - lo mod 2 ^ lg = 2 ^ lg * (lo div 2 ^ lg)"
        by (simp add: minus_mod_eq_mult_div)
      ultimately have "(?e + 1) mod 2 ^ lg = 0"
        by simp
      then have "(?e + 1) AND NOT (DIM lg - 1) = ?e + 1"
        by (simp add: align_eq)
      with ih show ?thesis using e by auto
    qed
  qed
qed

lemma segs_count:
  "length (filter (\<lambda>s. fst s \<le> v \<and> v \<le> snd s) (segs lg lo hi)) = (if lo \<le> v \<and> v \<le> hi then 1 else 0)"
proof (induction lg lo hi rule: segs.induct)
  case (1 lg lo hi)
  show ?case
  proof (cases "lo \<le> hi")
    case False
    then show ?thesis by (simp add: segs.simps [of lg lo hi])
  next
    case True
    have e: "lo \<le> seg_end lg hi lo" "seg_end lg hi lo \<le> hi"
      using True by (simp_all add: seg_end_ge seg_end_le)
    show ?thesis
      using True "1.IH" [OF True] e by (auto simp: segs.simps [of lg lo hi])
  qed
qed

text \<open>
  Were the coordinates two's complement numbers of \<open>n + 1\<close> bits, with \<open>DIM\<close> at most
  \<open>2 ^ n\<close>: on a box that lies in their range and stops short of the largest of them,
  nothing a segment computes leaves the range, neither the corner of the cell, nor its
  far corner, nor the start of the next segment.
\<close>

lemma align_in_range:
  fixes a :: int
  assumes "lg \<le> n" "- (2 ^ n) \<le> a" "a < 2 ^ n"
  shows "- (2 ^ n) \<le> (a AND NOT (DIM lg - 1))"
    and "(a AND NOT (DIM lg - 1)) + (DIM lg - 1) < 2 ^ n"
proof -
  let ?m = "(2::int) ^ lg" and ?q = "(2::int) ^ (n - lg)"
  have split: "(2::int) ^ n = ?m * ?q"
    using assms(1) by (simp flip: power_add)
  have al: "a AND NOT (DIM lg - 1) = ?m * (a div ?m)"
    by (simp add: align_eq minus_mod_eq_mult_div)
  have "?m * (- ?q) \<le> a" using assms(2) unfolding split by simp
  then have "(?m * (- ?q)) div ?m \<le> a div ?m"
    by (intro zdiv_mono1) simp_all
  moreover have "(?m * (- ?q)) div ?m = - ?q"
    by (rule nonzero_mult_div_cancel_left) simp
  ultimately have lo: "- ?q \<le> a div ?m" by simp
  have "?m * (- ?q) \<le> ?m * (a div ?m)"
    using lo by (intro mult_left_mono) simp_all
  then show "- (2 ^ n) \<le> (a AND NOT (DIM lg - 1))"
    unfolding al split by simp
  have lt: "a < ?m * ?q" using assms(3) unfolding split .
  have le: "?m * (a div ?m) \<le> a"
    by (simp flip: minus_mod_eq_mult_div)
  have "?m * (a div ?m) < ?m * ?q" by (rule le_less_trans [OF le lt])
  then have "a div ?m < ?q" by simp
  then have "a div ?m + 1 \<le> ?q" by simp
  then have "?m * (a div ?m + 1) \<le> ?m * ?q"
    by (intro mult_left_mono) simp_all
  then show "(a AND NOT (DIM lg - 1)) + (DIM lg - 1) < 2 ^ n"
    unfolding al split by (simp add: DIM_def algebra_simps)
qed

lemma segs_in_range:
  assumes "s \<in> set (segs lg lo hi)" "lg \<le> n" "- (2 ^ n) \<le> lo" "hi + 1 < 2 ^ n"
  shows "- (2 ^ n) \<le> (fst s AND NOT (DIM lg - 1))"
    and "(fst s AND NOT (DIM lg - 1)) + (DIM lg - 1) < 2 ^ n"
    and "- (2 ^ n) \<le> fst s" and "snd s + 1 < 2 ^ n"
proof -
  from segs_props [OF assms(1)] have p: "lo \<le> fst s" "fst s \<le> snd s" "snd s \<le> hi"
    by simp_all
  have r: "- (2 ^ n) \<le> fst s" "fst s < 2 ^ n" using p assms(3,4) by linarith+
  show "- (2 ^ n) \<le> (fst s AND NOT (DIM lg - 1))"
    "(fst s AND NOT (DIM lg - 1)) + (DIM lg - 1) < 2 ^ n"
    by (rule align_in_range [OF assms(2) r])+
  show "- (2 ^ n) \<le> fst s" by (rule r(1))
  show "snd s + 1 < 2 ^ n" using p(3) assms(4) by linarith
qed

lemma sum_indicator:
  "sum_list (map (\<lambda>s. if Q s then (k::nat) else 0) xs) = k * length (filter Q xs)"
  by (induction xs) simp_all

lemma length_filter_concat:
  "length (filter P (concat xss)) = sum_list (map (\<lambda>xs. length (filter P xs)) xss)"
  by (induction xss) simp_all

lemma inside_new:
  "isInside (bbox (Block_new \<lparr>mMin = Coord xa ya za, mMax = Coord xb yb zb\<rparr>)) c \<longleftrightarrow>
     xa \<le> cx c \<and> cx c \<le> xb \<and> ya \<le> cy c \<and> cy c \<le> yb \<and> za \<le> cz c \<and> cz c \<le> zb"
  by (simp add: Block_new_def isInside_def)

lemma z_blocks_count:
  "length (filter (\<lambda>b. isInside (bbox b) c) (z_blocks lg box xa xb ya yb z0 :: ('v::zero) Block list)) =
     (if xa \<le> cx c \<and> cx c \<le> xb \<and> ya \<le> cy c \<and> cy c \<le> yb
      then (if z0 \<le> cz c \<and> cz c \<le> cz (mMax box) then 1 else 0) else 0)"
proof (cases "xa \<le> cx c \<and> cx c \<le> xb \<and> ya \<le> cy c \<and> cy c \<le> yb")
  case True
  then have "length (filter (\<lambda>b. isInside (bbox b) c) (z_blocks lg box xa xb ya yb z0 :: 'v Block list))
      = length (filter (\<lambda>s. fst s \<le> cz c \<and> cz c \<le> snd s) (segs lg z0 (cz (mMax box))))"
    by (simp add: z_blocks_def filter_map o_def inside_new)
  then show ?thesis using True by (simp add: segs_count)
next
  case False
  then have "filter (\<lambda>b. isInside (bbox b) c) (z_blocks lg box xa xb ya yb z0 :: 'v Block list) = []"
    by (auto simp: z_blocks_def filter_empty_conv inside_new)
  then show ?thesis using False by simp
qed

lemma y_blocks_count:
  "length (filter (\<lambda>b. isInside (bbox b) c) (y_blocks lg box xa xb y0 :: ('v::zero) Block list)) =
     (if xa \<le> cx c \<and> cx c \<le> xb
      then (if y0 \<le> cy c \<and> cy c \<le> cy (mMax box)
            then (if cz (mMin box) \<le> cz c \<and> cz c \<le> cz (mMax box) then 1 else 0) else 0) else 0)"
proof -
  let ?Z = "if cz (mMin box) \<le> cz c \<and> cz c \<le> cz (mMax box) then 1 else 0 :: nat"
  let ?K = "if xa \<le> cx c \<and> cx c \<le> xb then ?Z else 0"
  have "length (filter (\<lambda>b. isInside (bbox b) c) (y_blocks lg box xa xb y0 :: 'v Block list))
      = sum_list (map (\<lambda>s. if fst s \<le> cy c \<and> cy c \<le> snd s then ?K else 0) (segs lg y0 (cy (mMax box))))"
  proof -
    have "length (filter (\<lambda>b. isInside (bbox b) c) (y_blocks lg box xa xb y0 :: 'v Block list))
      = sum_list (map (\<lambda>s. length (filter (\<lambda>b. isInside (bbox b) c)
            (z_blocks lg box xa xb (fst s) (snd s) (cz (mMin box)) :: 'v Block list)))
          (segs lg y0 (cy (mMax box))))"
      by (simp add: y_blocks_def length_filter_concat o_def)
    also have "\<dots> = sum_list (map (\<lambda>s. if fst s \<le> cy c \<and> cy c \<le> snd s then ?K else 0) (segs lg y0 (cy (mMax box))))"
      by (intro arg_cong [where f = sum_list] map_cong refl) (simp add: z_blocks_count)
    finally show ?thesis .
  qed
  also have "\<dots> = ?K * (if y0 \<le> cy c \<and> cy c \<le> cy (mMax box) then 1 else 0)"
    by (simp only: sum_indicator segs_count)
  finally show ?thesis by simp
qed

lemma x_blocks_count:
  "length (filter (\<lambda>b. isInside (bbox b) c) (x_blocks lg box x0 :: ('v::zero) Block list)) =
     (if x0 \<le> cx c \<and> cx c \<le> cx (mMax box)
      then (if cy (mMin box) \<le> cy c \<and> cy c \<le> cy (mMax box)
            then (if cz (mMin box) \<le> cz c \<and> cz c \<le> cz (mMax box) then 1 else 0) else 0) else 0)"
proof -
  let ?K = "if cy (mMin box) \<le> cy c \<and> cy c \<le> cy (mMax box)
            then (if cz (mMin box) \<le> cz c \<and> cz c \<le> cz (mMax box) then 1 else 0) else 0 :: nat"
  have "length (filter (\<lambda>b. isInside (bbox b) c) (x_blocks lg box x0 :: 'v Block list))
      = sum_list (map (\<lambda>s. if fst s \<le> cx c \<and> cx c \<le> snd s then ?K else 0) (segs lg x0 (cx (mMax box))))"
  proof -
    have "length (filter (\<lambda>b. isInside (bbox b) c) (x_blocks lg box x0 :: 'v Block list))
      = sum_list (map (\<lambda>s. length (filter (\<lambda>b. isInside (bbox b) c)
            (y_blocks lg box (fst s) (snd s) (cy (mMin box)) :: 'v Block list)))
          (segs lg x0 (cx (mMax box))))"
      by (simp add: x_blocks_def length_filter_concat o_def)
    also have "\<dots> = sum_list (map (\<lambda>s. if fst s \<le> cx c \<and> cx c \<le> snd s then ?K else 0) (segs lg x0 (cx (mMax box))))"
      by (intro arg_cong [where f = sum_list] map_cong refl) (simp add: y_blocks_count)
    finally show ?thesis .
  qed
  also have "\<dots> = ?K * (if x0 \<le> cx c \<and> cx c \<le> cx (mMax box) then 1 else 0)"
    by (simp only: sum_indicator segs_count)
  finally show ?thesis by simp
qed

lemma grid_blocks_count:
  "length (filter (\<lambda>b. isInside (bbox b) c) (grid_blocks lg box :: ('v::zero) Block list)) =
     (if isInside box c then 1 else 0)"
  unfolding grid_blocks_def x_blocks_count by (simp add: isInside_def)

lemma count_le_one_disjoint:
  assumes "length (filter P xs) \<le> 1" "i < j" "j < length xs" "P (xs ! i)"
  shows "\<not> P (xs ! j)"
proof
  assume pj: "P (xs ! j)"
  have "take j xs ! i \<in> set (take j xs)"
    using assms(2,3) by (intro nth_mem) simp
  then have "xs ! i \<in> set (take j xs)"
    using assms(2) by simp
  then have "filter P (take j xs) \<noteq> []"
    using assms(4) by (auto simp: filter_empty_conv)
  then have a: "1 \<le> length (filter P (take j xs))"
    by (cases "filter P (take j xs)") simp_all
  have "drop j xs = xs ! j # drop (Suc j) xs"
    using assms(3) by (simp add: Cons_nth_drop_Suc)
  then have b: "1 \<le> length (filter P (drop j xs))"
    using pj by simp
  have "filter P xs = filter P (take j xs) @ filter P (drop j xs)"
    by (simp flip: filter_append)
  then have "length (filter P xs) = length (filter P (take j xs)) + length (filter P (drop j xs))"
    by simp
  with a b assms(1) show False by simp
qed

lemma grid_blocks_mem:
  assumes "b \<in> set (grid_blocks lg box :: ('v::zero) Block list)"
  shows "\<exists>sx sy sz.
           sx \<in> set (segs lg (cx (mMin box)) (cx (mMax box))) \<and>
           sy \<in> set (segs lg (cy (mMin box)) (cy (mMax box))) \<and>
           sz \<in> set (segs lg (cz (mMin box)) (cz (mMax box))) \<and>
           b = Block_new \<lparr>mMin = Coord (fst sx) (fst sy) (fst sz),
                            mMax = Coord (snd sx) (snd sy) (snd sz)\<rparr>"
  using assms by (auto simp: grid_blocks_def x_blocks_def y_blocks_def z_blocks_def) blast

lemma seg_is_cell:
  assumes "s \<in> set (segs lg lo hi)"
  shows "fst s = max lo (fst s AND NOT (DIM lg - 1))"
    and "snd s = min hi ((fst s AND NOT (DIM lg - 1)) + (DIM lg - 1))"
    and "fst s \<le> snd s"
    and "snd s - fst s + 1 \<le> DIM lg"
proof -
  from segs_props [OF assms] have
    p: "lo \<le> fst s" "fst s \<le> snd s" "snd s = seg_end lg hi (fst s)"
       "fst s = lo \<or> fst s AND NOT (DIM lg - 1) = fst s"
    by simp_all
  show "fst s = max lo (fst s AND NOT (DIM lg - 1))"
    using p(1,4) align_le [of "fst s" lg] by auto
  show "snd s = min hi ((fst s AND NOT (DIM lg - 1)) + (DIM lg - 1))"
    using p(3) by (simp add: seg_end_def)
  show "fst s \<le> snd s" by (rule p(2))
  show "snd s - fst s + 1 \<le> DIM lg"
    using p(3) align_le [of "fst s" lg] by (simp add: seg_end_def)
qed


lemma grid_block_shape:
  assumes "b \<in> set (grid_blocks lg box :: ('v::zero) Block list)"
  shows "bbox b = bbox_intersect box (leaf_cell lg (cell_origin lg (mMin (bbox b))))"
    and "\<not> bbox_empty (bbox b)"
    and "cx (bbox_dim (bbox b)) \<le> DIM lg"
    and "cy (bbox_dim (bbox b)) \<le> DIM lg"
    and "cz (bbox_dim (bbox b)) \<le> DIM lg"
    and "leaf b = None"
proof -
  from grid_blocks_mem [OF assms] obtain sx sy sz where
    sx: "sx \<in> set (segs lg (cx (mMin box)) (cx (mMax box)))" and
    sy: "sy \<in> set (segs lg (cy (mMin box)) (cy (mMax box)))" and
    sz: "sz \<in> set (segs lg (cz (mMin box)) (cz (mMax box)))" and
    b: "b = Block_new \<lparr>mMin = Coord (fst sx) (fst sy) (fst sz),
                            mMax = Coord (snd sx) (snd sy) (snd sz)\<rparr>"
    by blast
  note x = seg_is_cell [OF sx] and y = seg_is_cell [OF sy] and z = seg_is_cell [OF sz]
  show "bbox b = bbox_intersect box (leaf_cell lg (cell_origin lg (mMin (bbox b))))"
    unfolding b
    using x(1,2) y(1,2) z(1,2)
    by (simp add: Block_new_def bbox_intersect_def leaf_cell_def cell_origin_def coord_and_def
        maxComponent_def minComponent_def offsetBy_def)
  show "\<not> bbox_empty (bbox b)"
    unfolding b using x(3) y(3) z(3) by (simp add: Block_new_def bbox_empty_def)
  show "cx (bbox_dim (bbox b)) \<le> DIM lg" "cy (bbox_dim (bbox b)) \<le> DIM lg"
    "cz (bbox_dim (bbox b)) \<le> DIM lg"
    unfolding b using x(4) y(4) z(4) by (simp_all add: Block_new_def bbox_dim_def)
  show "leaf b = None" unfolding b by (simp add: Block_new_def)
qed



section \<open>The conversion of the blocks\<close>

text \<open>The position of a coordinate in its leaf is a position of the leaf.\<close>

lemma leaf_offset_lt: "leaf_offset lg c < leaf_SIZE lg"
proof -
  let ?m = "(2::int) ^ lg"
  let ?a = "cx c mod ?m" and ?b = "cy c mod ?m" and ?k = "cz c mod ?m"
  have r: "0 \<le> ?a" "?a < ?m" "0 \<le> ?b" "?b < ?m" "0 \<le> ?k" "?k < ?m" by simp_all
  have n: "nat ?a < 2 ^ lg" "nat ?b < 2 ^ lg" "nat ?k < 2 ^ lg"
    using r by (simp_all add: nat_less_iff)
  have "leaf_offset lg c = nat (?a * 2 ^ (2 * lg) + ?b * 2 ^ lg + ?k)"
    by (simp add: leaf_offset_def and_dim_eq push_bit_eq_mult)
  also have "\<dots> = nat ?k + nat ?b * 2 ^ lg + nat ?a * (2 ^ lg * 2 ^ lg)"
    using r by (simp add: nat_add_distrib nat_mult_distrib nat_power_eq power2_eq_square
        power_mult mult.commute)
  also have "\<dots> < 2 ^ lg * 2 ^ lg * 2 ^ lg"
    by (rule offset_bound [OF n])
  also have "\<dots> = leaf_SIZE lg"
  proof -
    have "3 * lg = lg + lg + lg" by simp
    then have "(2::nat) ^ (3 * lg) = 2 ^ (lg + lg + lg)" by (rule arg_cong)
    then show ?thesis by (simp add: leaf_SIZE_def power_add mult.assoc)
  qed
  finally show ?thesis .
qed

lemma box_coords_set: "c \<in> set (box_coords b) \<longleftrightarrow> isInside b c"
proof (cases c)
  case (Coord x y z)
  have "Coord x y z \<in> set (box_coords b) \<longleftrightarrow>
      x \<in> {cx (mMin b)..cx (mMax b)} \<and> y \<in> {cy (mMin b)..cy (mMax b)} \<and>
      z \<in> {cz (mMin b)..cz (mMax b)}"
    by (force simp: box_coords_def image_iff)
  then show ?thesis by (auto simp: Coord isInside_def)
qed

lemma dense_read_ok:
  assumes "dense_ok d" "isInside (mBBox d) c"
  shows "\<exists>v. dense_read d c = Inr v \<and> v \<in> set (mData d)"
proof -
  let ?off = "coordToOffset d (nat (cx c - cx (mMin (mBBox d)))) (nat (cy c - cy (mMin (mBBox d))))
           (nat (cz c - cz (mMin (mBBox d))))"
  have "?off < volume (mBBox d)" by (rule inside_offset_lt [OF assms])
  then have "?off < length (mData d)" using assms(1) by (simp add: dense_ok_def)
  then show ?thesis using assms(2) by (simp add: dense_read_def getValue_offset_def)
qed

lemma copy_voxels_ok:
  assumes "dense_ok d" "\<forall>c \<in> set cs. isInside (mBBox d) c"
  shows "\<exists>vs'. copy_voxels lg d bg tol cs vs = Inr vs' \<and> length vs' = length vs"
  using assms(2)
proof (induction cs arbitrary: vs)
  case Nil
  then show ?case by simp
next
  case (Cons c cs)
  from dense_read_ok [OF assms(1), of c] Cons.prems obtain v where v: "dense_read d c = Inr v"
    by auto
  let ?vs1 = "if isApproxEqual bg v tol then vs[leaf_offset lg c := (bg, False)]
             else vs[leaf_offset lg c := (v, True)]"
  from Cons.IH [of ?vs1] Cons.prems obtain vs' where
    "copy_voxels lg d bg tol cs ?vs1 = Inr vs'" "length vs' = length ?vs1"
    by auto
  then show ?case using v by simp
qed

lemma block_inside:
  assumes "b \<in> set (grid_blocks lg box :: ('v::zero) Block list)" "isInside (bbox b) c"
  shows "isInside box c"
proof (rule ccontr)
  assume "\<not> isInside box c"
  then have "length (filter (\<lambda>b. isInside (bbox b) c) (grid_blocks lg box :: 'v Block list)) = 0"
    by (simp add: grid_blocks_count)
  then have "\<forall>b \<in> set (grid_blocks lg box :: 'v Block list). \<not> isInside (bbox b) c"
    by (simp add: filter_empty_conv)
  with assms show False by blast
qed

text \<open>A block all of whose coordinates are coordinates of the grid.\<close>

definition block_in_grid :: "'v Dense \<Rightarrow> 'v Block \<Rightarrow> bool" where
  "block_in_grid d b \<longleftrightarrow> (\<forall>c. isInside (bbox b) c \<longrightarrow> isInside (mBBox d) c)"

lemma leaf_copyFromDense_ok:
  assumes "dense_ok d" "\<forall>c. isInside box c \<longrightarrow> isInside (mBBox d) c"
  shows "\<exists>vs. copy_voxels lg d bg tol (box_coords box) (mVoxels l) = Inr vs \<and>
              length vs = length (mVoxels l) \<and>
              leaf_copyFromDense lg box d bg tol l = Inr (l\<lparr>mVoxels := vs\<rparr>)"
proof -
  have "\<forall>c \<in> set (box_coords box). isInside (mBBox d) c"
    using assms(2) by (simp add: box_coords_set)
  from copy_voxels_ok [OF assms(1) this, of lg bg tol "mVoxels l"] show ?thesis
    by (auto simp: leaf_copyFromDense_def)
qed

text \<open>The voxels of the scratch leaf after initialisation do not depend on the scratch leaf.\<close>

definition init_voxels :: "nat \<Rightarrow> 'v CopyFromDense \<Rightarrow> CoordBBox \<Rightarrow> ('v \<times> bool) list" where
  "init_voxels lg op box =
     (case mAccessor op of
        None \<Rightarrow> replicate (leaf_SIZE lg) (background (mTree op), False)
      | Some acc \<Rightarrow>
          (case probeConstLeaf lg acc (mMin box) of
             Some target \<Rightarrow> mVoxels target
           | None \<Rightarrow> replicate (leaf_SIZE lg) (snd (probeValue lg acc (mMin box)),
                                               fst (probeValue lg acc (mMin box)))))"

lemma init_scratch_voxels: "mVoxels (init_scratch lg op box s) = init_voxels lg op box"
  by (simp add: init_scratch_def init_voxels_def leaf_fill_def split: option.splits)

text \<open>What \<open>operator()\<close> leaves in a block, with no mention of the scratch leaf.\<close>

definition synth_block ::
  "nat \<Rightarrow> ('v::linordered_idom) CopyFromDense \<Rightarrow> 'v Block \<Rightarrow> error + 'v Block" where
  "synth_block lg op b =
     (case copy_voxels lg (mDense op) (background (mTree op)) (mTolerance op)
             (box_coords (bbox b)) (init_voxels lg op (bbox b)) of
        Inl e \<Rightarrow> Inl e
      | Inr vs \<Rightarrow>
          (case leaf_isConstant (mTolerance op) \<lparr>mOrigin = mMin (bbox b), mVoxels = vs\<rparr> of
             Some t \<Rightarrow> Inr (b\<lparr>tile := t\<rparr>)
           | None \<Rightarrow> Inr (b\<lparr>leaf := Some \<lparr>mOrigin = mMin (bbox b), mVoxels = vs\<rparr>\<rparr>)))"

lemma leaf_isConstant_voxels:
  "mVoxels l = mVoxels l' \<Longrightarrow> leaf_isConstant tol l = leaf_isConstant tol l'"
  by (simp add: leaf_isConstant_def)

lemma process_block_synth:
  "(case process_block lg op s b of Inl e \<Rightarrow> Inl e | Inr r \<Rightarrow> Inr (snd r)) = synth_block lg op b"
proof (cases "copy_voxels lg (mDense op) (background (mTree op)) (mTolerance op)
             (box_coords (bbox b)) (init_voxels lg op (bbox b))")
  case (Inl e)
  then show ?thesis
    by (simp add: process_block_def synth_block_def leaf_copyFromDense_def init_scratch_voxels)
next
  case (Inr vs)
  let ?l0 = "init_scratch lg op (bbox b) s"
  have c: "leaf_isConstant (mTolerance op) (?l0\<lparr>mVoxels := vs\<rparr>)
         = leaf_isConstant (mTolerance op) \<lparr>mOrigin = mMin (bbox b), mVoxels = vs\<rparr>"
    by (rule leaf_isConstant_voxels) simp
  have o: "leaf_setOrigin (mMin (bbox b)) (?l0\<lparr>mVoxels := vs\<rparr>) = \<lparr>mOrigin = mMin (bbox b), mVoxels = vs\<rparr>"
    by (simp add: leaf_setOrigin_def)
  show ?thesis
    using Inr
    by (simp add: process_block_def synth_block_def leaf_copyFromDense_def init_scratch_voxels c o
        split: option.splits)
qed

lemma synth_block_ok:
  assumes "dense_ok (mDense op)" "block_in_grid (mDense op) b"
  shows "\<exists>b'. synth_block lg op b = Inr b' \<and> bbox b' = bbox b"
proof -
  have "\<forall>c \<in> set (box_coords (bbox b)). isInside (mBBox (mDense op)) c"
    using assms(2) by (simp add: box_coords_set block_in_grid_def)
  from copy_voxels_ok [OF assms(1) this] obtain vs where
    "copy_voxels lg (mDense op) (background (mTree op)) (mTolerance op)
             (box_coords (bbox b)) (init_voxels lg op (bbox b)) = Inr vs"
    by blast
  then show ?thesis by (simp add: synth_block_def split: option.splits)
qed


text \<open>
  The block \<open>operator()\<close> leaves in place of a block. The bodies of a parallel run keep
  this picture: each body has converted the blocks of its sub-range below its index
  \<open>m\<close>, and every other block is as the partition left it.
\<close>

declare operator_loop.simps [simp del]

definition block_out :: "nat \<Rightarrow> ('v::linordered_idom) CopyFromDense \<Rightarrow> 'v Block \<Rightarrow> 'v Block" where
  "block_out lg op b = (case synth_block lg op b of Inl e \<Rightarrow> b | Inr b' \<Rightarrow> b')"

lemma block_out_bbox: "bbox (block_out lg op b) = bbox b"
  by (auto simp: block_out_def synth_block_def split: sum.splits option.splits)

lemma block_in_grid_out: "block_in_grid d (block_out lg op b) = block_in_grid d b"
  by (simp add: block_in_grid_def block_out_bbox)

lemma process_block_out:
  assumes "dense_ok (mDense op)" "block_in_grid (mDense op) b"
  shows "\<exists>s'. process_block lg op s b = Inr (s', block_out lg op b)"
proof -
  from synth_block_ok [OF assms] obtain b' where b': "synth_block lg op b = Inr b'" by blast
  with process_block_synth [of lg op s b] show ?thesis
    by (cases "process_block lg op s b") (auto simp: block_out_def)
qed

lemma copy_ctor_new:
  "CopyFromDense_copy_ctor (CopyFromDense_new d t tol) = CopyFromDense_new d t tol"
  by (simp add: CopyFromDense_copy_ctor_def CopyFromDense_new_def)

definition in_range :: "nat \<times> nat \<Rightarrow> nat \<Rightarrow> bool" where
  "in_range r i \<longleftrightarrow> fst r \<le> i \<and> i < snd r"

definition converted :: "(nat \<times> nat) list \<Rightarrow> 'v loop_state list \<Rightarrow> nat \<Rightarrow> bool" where
  "converted ranges sts i \<longleftrightarrow> (\<exists>k < length sts. fst (ranges ! k) \<le> i \<and> i < ls_m (sts ! k))"

definition bodies_inv ::
  "('v Block \<Rightarrow> 'v Block) \<Rightarrow> (nat \<times> nat) list \<Rightarrow> 'v Block list \<Rightarrow> 'v loop_state list \<Rightarrow> 'v Block list
   \<Rightarrow> bool" where
  "bodies_inv f ranges blocks0 sts blocks \<longleftrightarrow>
     length sts = length ranges \<and> length blocks = length blocks0 \<and>
     (\<forall>k < length sts. ls_end (sts ! k) = snd (ranges ! k) \<and>
                       fst (ranges ! k) \<le> ls_m (sts ! k) \<and> ls_m (sts ! k) \<le> ls_end (sts ! k)) \<and>
     (\<forall>i < length blocks0.
        blocks ! i = (if converted ranges sts i then f (blocks0 ! i) else blocks0 ! i))"

lemma bodies_inv_body:
  assumes "bodies_inv f ranges blocks0 sts blocks" "k < length sts"
  shows "ls_end (sts ! k) = snd (ranges ! k)" "fst (ranges ! k) \<le> ls_m (sts ! k)"
    "ls_m (sts ! k) \<le> ls_end (sts ! k)" "ls_m (sts ! k) \<le> snd (ranges ! k)"
  using assms unfolding bodies_inv_def by auto

lemma bodies_inv_block:
  assumes "bodies_inv f ranges blocks0 sts blocks" "i < length blocks0"
  shows "blocks ! i = (if converted ranges sts i then f (blocks0 ! i) else blocks0 ! i)"
  using assms unfolding bodies_inv_def by blast

lemma splits_range_ranges:
  assumes "splits_range n ranges" "k < length ranges"
  shows "fst (ranges ! k) \<le> snd (ranges ! k)" "snd (ranges ! k) \<le> n"
  using assms by (simp_all add: splits_range_def list_all_length)

lemma splits_range_unique:
  assumes "splits_range n ranges" "i < n" "k < length ranges" "k' < length ranges"
    and "in_range (ranges ! k) i" "in_range (ranges ! k') i"
  shows "k = k'"
proof (rule ccontr)
  assume ne: "k \<noteq> k'"
  have one: "length (filter (\<lambda>r. in_range r i) ranges) \<le> 1"
    using assms(1,2) by (simp add: splits_range_def list_all_iff in_range_def)
  show False
  proof (cases "k < k'")
    case True
    from count_le_one_disjoint [OF one True assms(4) assms(5)] assms(6) show False by simp
  next
    case False
    with ne have "k' < k" by simp
    from count_le_one_disjoint [OF one this assms(3) assms(6)] assms(5) show False by simp
  qed
qed

lemma splits_range_covered:
  assumes "splits_range n ranges" "i < n"
  shows "\<exists>k < length ranges. in_range (ranges ! k) i"
proof -
  have "length (filter (\<lambda>r. in_range r i) ranges) = 1"
    using assms by (simp add: splits_range_def list_all_iff in_range_def)
  then have "filter (\<lambda>r. in_range r i) ranges \<noteq> []" by auto
  then obtain r where "r \<in> set ranges" "in_range r i"
    by (auto simp: filter_empty_conv)
  then show ?thesis by (auto simp: in_set_conv_nth)
qed

lemma bodies_inv_start:
  assumes "splits_range (length blocks0) ranges"
  shows "bodies_inv f ranges blocks0 (map (body_start lg) ranges) blocks0"
  using splits_range_ranges(1) [OF assms]
  by (auto simp: bodies_inv_def converted_def body_start_def)

lemma turn_inv:
  fixes op :: "('v::linordered_idom) CopyFromDense"
  assumes ok: "dense_ok (mDense op)" and grid: "\<forall>b \<in> set blocks0. block_in_grid (mDense op) b"
    and sp: "splits_range (length blocks0) ranges"
    and inv: "bodies_inv (block_out lg op) ranges blocks0 sts blocks"
    and k: "k < length sts" and run: "ls_m (sts ! k) \<noteq> ls_end (sts ! k)"
  shows "\<exists>r. loop_turn lg op (sts ! k) blocks = Inr r \<and>
             ls_m (fst r) = Suc (ls_m (sts ! k)) \<and> ls_end (fst r) = ls_end (sts ! k) \<and>
             bodies_inv (block_out lg op) ranges blocks0 (sts[k := fst r]) (snd r)"
proof -
  let ?f = "block_out lg op" and ?m = "ls_m (sts ! k)"
  have len: "length sts = length ranges" "length blocks = length blocks0"
    using inv by (simp_all add: bodies_inv_def)
  have bk: "ls_end (sts ! k) = snd (ranges ! k)" "fst (ranges ! k) \<le> ?m" "?m \<le> ls_end (sts ! k)"
    by (rule bodies_inv_body [OF inv k])+
  have kr: "k < length ranges" using k len by simp
  have m_in: "in_range (ranges ! k) ?m" using bk run by (simp add: in_range_def)
  have m_lt: "?m < length blocks0"
    using bk run splits_range_ranges(2) [OF sp kr] by simp
  have not_conv: "\<not> converted ranges sts ?m"
  proof
    assume "converted ranges sts ?m"
    then obtain k' where k': "k' < length sts" "fst (ranges ! k') \<le> ?m" "?m < ls_m (sts ! k')"
      by (auto simp: converted_def)
    have "ls_m (sts ! k') \<le> snd (ranges ! k')" by (rule bodies_inv_body [OF inv k'(1)])
    then have "in_range (ranges ! k') ?m" using k' by (simp add: in_range_def)
    from splits_range_unique [OF sp m_lt kr _ m_in this] k'(1) len have "k = k'" by simp
    with k'(3) show False by simp
  qed
  have cur: "blocks ! ?m = blocks0 ! ?m"
    using bodies_inv_block [OF inv m_lt] not_conv by simp
  have "block_in_grid (mDense op) (blocks0 ! ?m)" using grid m_lt by simp
  from process_block_out [OF ok this, of lg "ls_leaf (sts ! k)"] obtain s' where
    p: "process_block lg op (ls_leaf (sts ! k)) (blocks0 ! ?m) = Inr (s', ?f (blocks0 ! ?m))"
    by blast
  let ?st = "(sts ! k)\<lparr>ls_m := Suc ?m, ls_leaf := s'\<rparr>"
  let ?bs = "blocks[?m := ?f (blocks0 ! ?m)]"
  have t: "loop_turn lg op (sts ! k) blocks = Inr (?st, ?bs)"
    using m_lt len p by (simp add: loop_turn_def cur)
  have conv: "converted ranges (sts[k := ?st]) i \<longleftrightarrow> converted ranges sts i \<or> i = ?m"
    if "i < length blocks0" for i
  proof
    assume "converted ranges (sts[k := ?st]) i"
    then obtain k' where k': "k' < length sts" "fst (ranges ! k') \<le> i" "i < ls_m ((sts[k := ?st]) ! k')"
      by (auto simp: converted_def)
    show "converted ranges sts i \<or> i = ?m"
    proof (cases "k' = k")
      case True
      then have "i < Suc ?m" using k' k by simp
      then show ?thesis using k' True k by (auto simp: converted_def)
    next
      case False
      then show ?thesis using k' by (auto simp: converted_def)
    qed
  next
    assume "converted ranges sts i \<or> i = ?m"
    then show "converted ranges (sts[k := ?st]) i"
    proof
      assume "converted ranges sts i"
      then obtain k' where k': "k' < length sts" "fst (ranges ! k') \<le> i" "i < ls_m (sts ! k')"
        by (auto simp: converted_def)
      then have "i < ls_m ((sts[k := ?st]) ! k')"
        using k by (cases "k' = k") simp_all
      then show ?thesis using k' by (auto simp: converted_def)
    next
      assume "i = ?m"
      then show ?thesis using k bk by (auto simp: converted_def intro!: exI [of _ k])
    qed
  qed
  have inv': "bodies_inv ?f ranges blocks0 (sts[k := ?st]) ?bs"
    unfolding bodies_inv_def
  proof (intro conjI allI impI)
    show "length (sts[k := ?st]) = length ranges" using len by simp
    show "length ?bs = length blocks0" using len by simp
  next
    fix k' assume "k' < length (sts[k := ?st])"
    then have k': "k' < length sts" by simp
    have old: "ls_end (sts ! k') = snd (ranges ! k')" "fst (ranges ! k') \<le> ls_m (sts ! k')"
      "ls_m (sts ! k') \<le> ls_end (sts ! k')"
      by (rule bodies_inv_body [OF inv k'])+
    show "ls_end ((sts[k := ?st]) ! k') = snd (ranges ! k')"
      using old k by (cases "k' = k") simp_all
    show "fst (ranges ! k') \<le> ls_m ((sts[k := ?st]) ! k')"
      using old k by (cases "k' = k") simp_all
    show "ls_m ((sts[k := ?st]) ! k') \<le> ls_end ((sts[k := ?st]) ! k')"
      using old k run bk by (cases "k' = k") simp_all
  next
    fix i assume i: "i < length blocks0"
    have old: "blocks ! i = (if converted ranges sts i then ?f (blocks0 ! i) else blocks0 ! i)"
      by (rule bodies_inv_block [OF inv i])
    show "?bs ! i = (if converted ranges (sts[k := ?st]) i then ?f (blocks0 ! i) else blocks0 ! i)"
      using old conv [OF i] i len not_conv by (cases "i = ?m") simp_all
  qed
  show ?thesis using t inv' by simp
qed

lemma run_bodies_inv:
  fixes op :: "('v::linordered_idom) CopyFromDense"
  assumes ok: "dense_ok (mDense op)" and grid: "\<forall>b \<in> set blocks0. block_in_grid (mDense op) b"
    and sp: "splits_range (length blocks0) ranges"
  shows "bodies_inv (block_out lg op) ranges blocks0 sts blocks \<Longrightarrow>
         \<exists>r. run_bodies lg op sched sts blocks = Inr r \<and>
             bodies_inv (block_out lg op) ranges blocks0 (fst r) (snd r)"
proof (induction sched arbitrary: sts blocks)
  case Nil
  then show ?case by simp
next
  case (Cons k ks)
  show ?case
  proof (cases "k < length sts \<and> ls_m (sts ! k) \<noteq> ls_end (sts ! k)")
    case False
    then show ?thesis using Cons.IH [OF Cons.prems] by auto
  next
    case True
    from turn_inv [OF ok grid sp Cons.prems] True obtain r where
      r: "loop_turn lg op (sts ! k) blocks = Inr r"
      and inv': "bodies_inv (block_out lg op) ranges blocks0 (sts[k := fst r]) (snd r)"
      by blast
    from Cons.IH [OF inv'] show ?thesis using True r by simp
  qed
qed

lemma operator_loop_inv:
  fixes op :: "('v::linordered_idom) CopyFromDense"
  assumes ok: "dense_ok (mDense op)" and grid: "\<forall>b \<in> set blocks0. block_in_grid (mDense op) b"
    and sp: "splits_range (length blocks0) ranges"
  shows "bodies_inv (block_out lg op) ranges blocks0 sts blocks \<Longrightarrow> k < length sts \<Longrightarrow>
         \<exists>st' blocks'. operator_loop lg op (sts ! k) blocks = Inr blocks' \<and>
             ls_m st' = ls_end st' \<and>
             bodies_inv (block_out lg op) ranges blocks0 (sts[k := st']) blocks'"
proof (induction "ls_end (sts ! k) - ls_m (sts ! k)" arbitrary: sts blocks)
  case 0
  then have "ls_m (sts ! k) \<le> ls_end (sts ! k)" by (auto dest: bodies_inv_body(3))
  with 0 have e: "ls_m (sts ! k) = ls_end (sts ! k)" by simp
  then have "operator_loop lg op (sts ! k) blocks = Inr blocks"
    by (subst operator_loop.simps) simp
  moreover have "sts[k := sts ! k] = sts" by simp
  ultimately show ?case using e "0.prems"(1) by metis
next
  case (Suc n)
  then have run: "ls_m (sts ! k) \<noteq> ls_end (sts ! k)" by auto
  from turn_inv [OF ok grid sp Suc.prems(1,2) run] obtain r where
    r: "loop_turn lg op (sts ! k) blocks = Inr r"
    and m: "ls_m (fst r) = Suc (ls_m (sts ! k))" "ls_end (fst r) = ls_end (sts ! k)"
    and inv': "bodies_inv (block_out lg op) ranges blocks0 (sts[k := fst r]) (snd r)"
    by blast
  let ?sts = "sts[k := fst r]"
  have k': "k < length ?sts" using Suc.prems(2) by simp
  have at: "?sts ! k = fst r" using Suc.prems(2) by simp
  have n: "n = ls_end (?sts ! k) - ls_m (?sts ! k)" using Suc.hyps(2) m by (simp add: at)
  from Suc.hyps(1) [OF n inv' k'] obtain st' blocks' where
    "operator_loop lg op (fst r) (snd r) = Inr blocks'" "ls_m st' = ls_end st'"
    "bodies_inv (block_out lg op) ranges blocks0 (sts[k := st']) blocks'"
    by (auto simp: at)
  moreover have "operator_loop lg op (sts ! k) blocks = operator_loop lg op (fst r) (snd r)"
    using run r by (subst operator_loop.simps) simp
  ultimately show ?case by metis
qed

lemma finish_bodies_inv:
  fixes op :: "('v::linordered_idom) CopyFromDense"
  assumes ok: "dense_ok (mDense op)" and grid: "\<forall>b \<in> set blocks0. block_in_grid (mDense op) b"
    and sp: "splits_range (length blocks0) ranges"
  shows "bodies_inv (block_out lg op) ranges blocks0 sts blocks \<Longrightarrow> j \<le> length sts \<Longrightarrow>
         \<forall>k < j. ls_m (sts ! k) = ls_end (sts ! k) \<Longrightarrow>
         \<exists>sts' blocks'. finish_bodies lg op (drop j sts) blocks = Inr blocks' \<and>
             bodies_inv (block_out lg op) ranges blocks0 sts' blocks' \<and>
             (\<forall>k < length sts'. ls_m (sts' ! k) = ls_end (sts' ! k))"
proof (induction "length sts - j" arbitrary: j sts blocks)
  case 0
  then have "drop j sts = []" "j = length sts" by simp_all
  then show ?case using "0.prems" by auto
next
  case (Suc n)
  then have j: "j < length sts" by simp
  from operator_loop_inv [OF ok grid sp Suc.prems(1) j] obtain st' blocks1 where
    l: "operator_loop lg op (sts ! j) blocks = Inr blocks1" and d: "ls_m st' = ls_end st'"
    and inv1: "bodies_inv (block_out lg op) ranges blocks0 (sts[j := st']) blocks1"
    by blast
  let ?sts = "sts[j := st']"
  have n: "n = length ?sts - Suc j" using Suc.hyps(2) by simp
  have j1: "Suc j \<le> length ?sts" using j by simp
  have done1: "\<forall>k < Suc j. ls_m (?sts ! k) = ls_end (?sts ! k)"
    using Suc.prems(3) d j by (auto simp: nth_list_update less_Suc_eq)
  from Suc.hyps(1) [OF n inv1 j1 done1] obtain sts' blocks' where
    f: "finish_bodies lg op (drop (Suc j) ?sts) blocks1 = Inr blocks'"
    and r: "bodies_inv (block_out lg op) ranges blocks0 sts' blocks'"
       "\<forall>k < length sts'. ls_m (sts' ! k) = ls_end (sts' ! k)"
    by blast
  have "drop j sts = sts ! j # drop (Suc j) sts" using j by (simp add: Cons_nth_drop_Suc)
  moreover have "drop (Suc j) ?sts = drop (Suc j) sts" by simp
  ultimately have "finish_bodies lg op (drop j sts) blocks = Inr blocks'"
    using l f by simp
  with r show ?case by blast
qed

lemma bodies_inv_done:
  assumes sp: "splits_range (length blocks0) ranges"
    and inv: "bodies_inv f ranges blocks0 sts blocks"
    and fin: "\<forall>k < length sts. ls_m (sts ! k) = ls_end (sts ! k)"
  shows "blocks = map f blocks0"
proof (rule nth_equalityI)
  show "length blocks = length (map f blocks0)" using inv by (simp add: bodies_inv_def)
next
  fix i assume "i < length blocks"
  then have i: "i < length blocks0" using inv by (simp add: bodies_inv_def)
  from splits_range_covered [OF sp i] obtain k where
    k: "k < length ranges" "in_range (ranges ! k) i" by blast
  have len: "length sts = length ranges" using inv by (simp add: bodies_inv_def)
  have ks: "k < length sts" using k(1) len by simp
  have "ls_end (sts ! k) = snd (ranges ! k)" by (rule bodies_inv_body [OF inv ks])
  then have "ls_m (sts ! k) = snd (ranges ! k)" using fin ks by simp
  then have "converted ranges sts i"
    using k len by (auto simp: converted_def in_range_def)
  then show "blocks ! i = map f blocks0 ! i" using bodies_inv_block [OF inv i] i by simp
qed

lemma parallel_blocks:
  fixes d :: "('v::linordered_idom) Dense"
  assumes "dense_ok d" "op = CopyFromDense_new d t tol" "\<forall>b \<in> set blocks. block_in_grid d b"
    and sp: "splits_range (length blocks) ranges"
  shows "parallel_for lg ranges sched op blocks = Inr (map (block_out lg op) blocks)"
proof -
  have d: "mDense op = d" by (simp add: assms(2) CopyFromDense_new_def)
  have ok: "dense_ok (mDense op)" and grid: "\<forall>b \<in> set blocks. block_in_grid (mDense op) b"
    using assms(1,3) by (simp_all add: d)
  have cc: "CopyFromDense_copy_ctor op = op" by (simp add: assms(2) copy_ctor_new)
  from run_bodies_inv [OF ok grid sp bodies_inv_start [OF sp], where sched = sched] obtain r where
    r: "run_bodies lg op sched (map (body_start lg) ranges) blocks = Inr r"
    and inv: "bodies_inv (block_out lg op) ranges blocks (fst r) (snd r)"
    by blast
  from finish_bodies_inv [OF ok grid sp inv, of 0] obtain sts' blocks' where
    f: "finish_bodies lg op (fst r) (snd r) = Inr blocks'"
    and inv': "bodies_inv (block_out lg op) ranges blocks sts' blocks'"
    and fin: "\<forall>k < length sts'. ls_m (sts' ! k) = ls_end (sts' ! k)"
    by auto
  have "blocks' = map (block_out lg op) blocks" by (rule bodies_inv_done [OF sp inv' fin])
  then show ?thesis using r f by (simp add: parallel_for_def cc)
qed

lemma whole_range: "splits_range n [(0, n)]"
  by (simp add: splits_range_def list_all_iff)

lemma serial_blocks:
  fixes d :: "('v::linordered_idom) Dense"
  assumes "dense_ok d" "op = CopyFromDense_new d t tol" "\<forall>b \<in> set blocks. block_in_grid d b"
  shows "operator_call lg op (0, length blocks) blocks = Inr (map (block_out lg op) blocks)"
proof -
  have d: "mDense op = d" by (simp add: assms(2) CopyFromDense_new_def)
  have ok: "dense_ok (mDense op)" and grid: "\<forall>b \<in> set blocks. block_in_grid (mDense op) b"
    using assms(1,3) by (simp_all add: d)
  let ?r = "[(0, length blocks)]"
  note sp = whole_range [of "length blocks"]
  have inv: "bodies_inv (block_out lg op) ?r blocks (map (body_start lg) ?r) blocks"
    by (rule bodies_inv_start [OF sp])
  from operator_loop_inv [OF ok grid sp inv, of 0] obtain st' blocks' where
    l: "operator_loop lg op (body_start lg (0, length blocks)) blocks = Inr blocks'"
    and fin: "ls_m st' = ls_end st'"
    and inv': "bodies_inv (block_out lg op) ?r blocks [st'] blocks'"
    by auto
  have "blocks' = map (block_out lg op) blocks"
    by (rule bodies_inv_done [OF sp inv']) (simp add: fin)
  then show ?thesis using l by (simp add: operator_call_def)
qed

lemma partition_in_grid:
  fixes d :: "('v::linordered_idom) Dense" and blocks :: "'v Block list"
  assumes "dense_ok d" "partition_blocks lg (mBBox d) = Some blocks"
  shows "\<forall>b \<in> set blocks. block_in_grid d b"
proof -
  have "\<not> bbox_empty (mBBox d)" using assms(1) by (simp add: dense_ok_def)
  then have "partition_blocks lg (mBBox d) = Some (grid_blocks lg (mBBox d) :: 'v Block list)"
    by (rule partition_blocks_eq)
  with assms(2) have "blocks = grid_blocks lg (mBBox d)"
    by simp
  then show ?thesis using block_inside by (auto simp: block_in_grid_def)
qed

lemma insert_blocks_eq:
  fixes d :: "('v::linordered_idom) Dense" and blocks :: "'v Block list"
  assumes "dense_ok d" "partition_blocks lg (mBBox d) = Some blocks"
    and "serial \<or> splits_range (length blocks) ranges"
  shows "insert_blocks lg ranges sched (CopyFromDense_new d t tol) serial =
     Some (Inr (merge_blocks lg (map (block_out lg (CopyFromDense_new d t tol)) blocks) t))"
proof -
  let ?op = "CopyFromDense_new d t tol"
  have f: "mDense ?op = d" "mTree ?op = t" by (simp_all add: CopyFromDense_new_def)
  note grid = partition_in_grid [OF assms(1,2)]
  show ?thesis
  proof (cases serial)
    case True
    then show ?thesis
      using serial_blocks [OF assms(1) refl grid, where t = t and tol = tol and lg = lg] assms(2)
      by (simp add: insert_blocks_def f)
  next
    case False
    with assms(3) have "splits_range (length blocks) ranges" by simp
    from parallel_blocks [OF assms(1) refl grid this, where t = t and tol = tol and lg = lg and sched = sched] False assms(2)
    show ?thesis by (simp add: insert_blocks_def f)
  qed
qed

text \<open>
  Claim C1. On a grid as the constructors build it, for every destination tree and
  tolerance, \<open>copyFromDense\<close> in parallel mode returns the tree that serial mode
  returns: the same table in the same order, so the same leaves, tiles and values. This
  holds whatever sub-ranges the scheduler splits the block range into and however the
  loops of their bodies take their turns, each body with a scratch leaf of its own. Each
  block's result depends on the block alone (not on the scratch leaf a body carries from
  block to block, nor on the blocks converted before it), and the insertion runs over
  the blocks in the order of the partition.
\<close>

theorem serial_parallel_same:
  fixes dense :: "('v::linordered_idom) Dense" and blocks :: "'v Block list"
  assumes "dense_ok dense"
    and "partition_blocks lg (mBBox dense) = Some blocks"
    and "splits_range (length blocks) ranges"
  shows "copyFromDense prune lg ranges sched dense tree tol False =
           copyFromDense prune lg ranges' sched' dense tree tol True \<and>
         (\<exists>t. copyFromDense prune lg ranges sched dense tree tol False = Some (Inr t))"
proof -
  have p: "insert_blocks lg ranges sched (CopyFromDense_new dense tree tol) False =
     Some (Inr (merge_blocks lg (map (block_out lg (CopyFromDense_new dense tree tol)) blocks) tree))"
    by (rule insert_blocks_eq [OF assms(1,2)]) (simp add: assms(3))
  have s: "insert_blocks lg ranges' sched' (CopyFromDense_new dense tree tol) True =
     Some (Inr (merge_blocks lg (map (block_out lg (CopyFromDense_new dense tree tol)) blocks) tree))"
    by (rule insert_blocks_eq [OF assms(1,2)]) simp
  show ?thesis by (simp add: copyFromDense_def copy_def p s)
qed

theorem serial_parallel_same_witness:
  "dense_ok (dense_fields \<lparr>mMin = Coord 0 0 0, mMax = Coord 5 1 1\<rparr>
              [5, 6, 5, 5, 5, 5, 5, 5, 9, 9, 9, 9, 9, 9, 9, 9, 1, 2, 3, 4, 5, 6, 7, 8 :: int]) \<and>
   partition_blocks 1 \<lparr>mMin = Coord 0 0 0, mMax = Coord 5 1 1\<rparr>
     = Some [Block_new \<lparr>mMin = Coord 0 0 0, mMax = Coord 1 1 1\<rparr>,
             Block_new \<lparr>mMin = Coord 2 0 0, mMax = Coord 3 1 1\<rparr>,
             Block_new \<lparr>mMin = Coord 4 0 0, mMax = Coord 5 1 1\<rparr> :: int Block] \<and>
   splits_range 3 [(1, 3), (0, 1)] \<and>
   copyFromDense (\<lambda>tol t. t) 1 [(1, 3), (0, 1)] [0, 1, 0, 1]
      (dense_fields \<lparr>mMin = Coord 0 0 0, mMax = Coord 5 1 1\<rparr>
              [5, 6, 5, 5, 5, 5, 5, 5, 9, 9, 9, 9, 9, 9, 9, 9, 1, 2, 3, 4, 5, 6, 7, 8 :: int])
      \<lparr>background = 0, mTable = []\<rparr> 5 False
    = copyFromDense (\<lambda>tol t. t) 1 [] []
      (dense_fields \<lparr>mMin = Coord 0 0 0, mMax = Coord 5 1 1\<rparr>
              [5, 6, 5, 5, 5, 5, 5, 5, 9, 9, 9, 9, 9, 9, 9, 9, 1, 2, 3, 4, 5, 6, 7, 8 :: int])
      \<lparr>background = 0, mTable = []\<rparr> 5 True \<and>
   copyFromDense (\<lambda>tol t. t) 1 [(1, 3), (0, 1)] [0, 1, 0, 1]
      (dense_fields \<lparr>mMin = Coord 0 0 0, mMax = Coord 5 1 1\<rparr>
              [5, 6, 5, 5, 5, 5, 5, 5, 9, 9, 9, 9, 9, 9, 9, 9, 1, 2, 3, 4, 5, 6, 7, 8 :: int])
      \<lparr>background = 0, mTable = []\<rparr> 5 False
    = Some (Inr \<lparr>background = 0,
                 mTable = [(Coord 0 0 0, LeafNode \<lparr>mOrigin = Coord 0 0 0,
                              mVoxels = [(0, False), (6, True), (0, False), (0, False),
                                         (0, False), (0, False), (0, False), (0, False)]\<rparr>),
                           (Coord 2 0 0, TileNode 1 9 True),
                           (Coord 4 0 0, LeafNode \<lparr>mOrigin = Coord 4 0 0,
                              mVoxels = [(0, False), (0, False), (0, False), (0, False),
                                         (0, False), (6, True), (7, True), (8, True)]\<rparr>)]\<rparr>)"
proof -
  let ?D = "dense_fields \<lparr>mMin = Coord 0 0 0, mMax = Coord 5 1 1\<rparr>
              [5, 6, 5, 5, 5, 5, 5, 5, 9, 9, 9, 9, 9, 9, 9, 9, 1, 2, 3, 4, 5, 6, 7, 8 :: int]"
  let ?B = "[Block_new \<lparr>mMin = Coord 0 0 0, mMax = Coord 1 1 1\<rparr>,
             Block_new \<lparr>mMin = Coord 2 0 0, mMax = Coord 3 1 1\<rparr>,
             Block_new \<lparr>mMin = Coord 4 0 0, mMax = Coord 5 1 1\<rparr> :: int Block]"
  have ok: "dense_ok ?D"
    by (simp add: dense_ok_def dense_fields_def bbox_empty_def bbox_dim_def volume_def)
  have part: "partition_blocks 1 (mBBox ?D) = Some ?B"
    by code_simp
  have sp: "splits_range (length ?B) [(1, 3), (0, 1)]"
    by code_simp
  have ev: "copyFromDense (\<lambda>tol t. t) 1 [(1, 3), (0, 1)] [0, 1, 0, 1] ?D \<lparr>background = 0, mTable = []\<rparr> 5 False
    = Some (Inr \<lparr>background = 0,
                 mTable = [(Coord 0 0 0, LeafNode \<lparr>mOrigin = Coord 0 0 0,
                              mVoxels = [(0, False), (6, True), (0, False), (0, False),
                                         (0, False), (0, False), (0, False), (0, False)]\<rparr>),
                           (Coord 2 0 0, TileNode 1 9 True),
                           (Coord 4 0 0, LeafNode \<lparr>mOrigin = Coord 4 0 0,
                              mVoxels = [(0, False), (0, False), (0, False), (0, False),
                                         (0, False), (6, True), (7, True), (8, True)]\<rparr>)]\<rparr>)"
    by code_simp
  from serial_parallel_same [OF ok part sp, of "\<lambda>tol t. t" "[0, 1, 0, 1]" "\<lparr>background = 0, mTable = []\<rparr>" 5 "[]" "[]"]
  have eq: "copyFromDense (\<lambda>tol t. t) 1 [(1, 3), (0, 1)] [0, 1, 0, 1] ?D \<lparr>background = 0, mTable = []\<rparr> 5 False
    = copyFromDense (\<lambda>tol t. t) 1 [] [] ?D \<lparr>background = 0, mTable = []\<rparr> 5 True"
    by simp
  have part': "partition_blocks 1 \<lparr>mMin = Coord 0 0 0, mMax = Coord 5 1 1\<rparr> = Some ?B"
    using part by (simp add: dense_fields_def)
  have sp': "splits_range 3 [(1, 3), (0, 1)]" by code_simp
  show ?thesis using ok part' sp' eq ev by blast
qed

section \<open>Insertion and initialisation\<close>






section \<open>A grid of background values\<close>

lemma isApproxEqual_refl: "0 \<le> tol \<Longrightarrow> isApproxEqual a a tol"
  by (simp add: isApproxEqual_def)

lemma isApproxEqual_mono: "isApproxEqual a b t1 \<Longrightarrow> t1 \<le> t2 \<Longrightarrow> isApproxEqual a b t2"
  by (simp add: isApproxEqual_def)

lemma leaf_SIZE_pos: "0 < leaf_SIZE lg"
  by (simp add: leaf_SIZE_def)

lemma copy_voxels_bg:
  assumes "dense_ok d" "\<forall>v \<in> set (mData d). isApproxEqual bg v tol"
    and "\<forall>c \<in> set cs. isInside (mBBox d) c" "\<forall>p \<in> set vs. p = (bg, False)"
  shows "\<exists>vs'. copy_voxels lg d bg tol cs vs = Inr vs' \<and> length vs' = length vs \<and>
               (\<forall>p \<in> set vs'. p = (bg, False))"
  using assms(3,4)
proof (induction cs arbitrary: vs)
  case Nil
  then show ?case by simp
next
  case (Cons c cs)
  from dense_read_ok [OF assms(1), of c] Cons.prems(1) obtain v where
    v: "dense_read d c = Inr v" "v \<in> set (mData d)"
    by auto
  then have ap: "isApproxEqual bg v tol" using assms(2) by simp
  let ?vs1 = "vs[leaf_offset lg c := (bg, False)]"
  have "\<forall>p \<in> set ?vs1. p = (bg, False)"
    using Cons.prems(2) set_update_subset_insert [of vs "leaf_offset lg c" "(bg, False)"] by auto
  from Cons.IH [OF _ this] Cons.prems(1) obtain vs' where
    "copy_voxels lg d bg tol cs ?vs1 = Inr vs'" "length vs' = length ?vs1"
    "\<forall>p \<in> set vs'. p = (bg, False)"
    by auto
  then show ?case using v(1) ap by simp
qed

lemma leaf_isConstant_replicate:
  assumes "0 < n" "isApproxEqual v v tol"
  shows "leaf_isConstant tol \<lparr>mOrigin = origin, mVoxels = replicate n (v, s)\<rparr> = Some (v, s)"
proof -
  obtain m where "n = Suc m" using assms(1) by (cases n) simp_all
  then show ?thesis using assms(2) by (simp add: leaf_isConstant_def list_all_iff)
qed

lemma synth_block_bg:
  assumes "dense_ok d" "tree_empty t" "\<forall>v \<in> set (mData d). isApproxEqual (background t) v tol"
    and "0 \<le> tol" "block_in_grid d b"
  shows "synth_block lg (CopyFromDense_new d t tol) b = Inr (b\<lparr>tile := (background t, False)\<rparr>)"
proof -
  let ?op = "CopyFromDense_new d t tol"
  let ?bg = "background t"
  have f: "mDense ?op = d" "mTree ?op = t" "mTolerance ?op = tol" "mAccessor ?op = None"
    using assms(2) by (simp_all add: CopyFromDense_new_def)
  have iv: "init_voxels lg ?op (bbox b) = replicate (leaf_SIZE lg) (?bg, False)"
    by (simp add: init_voxels_def f)
  have inside: "\<forall>c \<in> set (box_coords (bbox b)). isInside (mBBox d) c"
    using assms(5) by (simp add: box_coords_set block_in_grid_def)
  from copy_voxels_bg [OF assms(1,3) inside, of "replicate (leaf_SIZE lg) (?bg, False)" lg]
  obtain vs where vs: "copy_voxels lg d ?bg tol (box_coords (bbox b)) (replicate (leaf_SIZE lg) (?bg, False)) = Inr vs"
    "length vs = leaf_SIZE lg" "\<forall>p \<in> set vs. p = (?bg, False)"
    by auto
  have "vs = replicate (leaf_SIZE lg) (?bg, False)"
    using vs(2,3) by (intro replicate_eqI) simp_all
  moreover have "leaf_isConstant tol \<lparr>mOrigin = mMin (bbox b), mVoxels = replicate (leaf_SIZE lg) (?bg, False)\<rparr>
      = Some (?bg, False)"
    by (rule leaf_isConstant_replicate [OF leaf_SIZE_pos isApproxEqual_refl [OF assms(4)]])
  ultimately show ?thesis using vs(1) by (simp add: synth_block_def f iv)
qed

lemma new_fields:
  "mDense (CopyFromDense_new d t tol) = d"
  "mTree (CopyFromDense_new d t tol) = t"
  "mTolerance (CopyFromDense_new d t tol) = tol"
  by (simp_all add: CopyFromDense_new_def)

lemma fold_unchanged: "\<forall>b \<in> set bs. f b t = t \<Longrightarrow> fold f bs t = t"
  by (induction bs) simp_all

lemma partition_fresh:
  fixes blocks :: "('v::zero) Block list"
  assumes "\<not> bbox_empty box" "partition_blocks lg box = Some blocks"
  shows "\<forall>b \<in> set blocks. leaf b = None"
proof -
  have "partition_blocks lg box = Some (grid_blocks lg box :: 'v Block list)"
    by (rule partition_blocks_eq [OF assms(1)])
  with assms(2) have "blocks = grid_blocks lg box" by simp
  then show ?thesis using grid_block_shape(6) by blast
qed

lemma node_counts: "leafCount t + tileCount t = length (mTable t)"
proof -
  have "length (filter (\<lambda>(k, n). case n of LeafNode l \<Rightarrow> True | _ \<Rightarrow> False) al)
      + length (filter (\<lambda>(k, n). case n of TileNode lvl v s \<Rightarrow> True | _ \<Rightarrow> False) al) = length al"
    for al :: "(Coord \<times> 'a node) list"
    by (induction al) (auto split: node.splits)
  then show ?thesis by (simp add: leafCount_def tileCount_def)
qed

text \<open>
  Claim C8. For a grid all of whose values equal the background of an empty destination
  tree, and tolerance 0, every block comes out as an inactive background tile; the
  insertion adds nothing, so the tree handed to \<open>pruneTiles\<close> is the empty destination
  tree, with no leaf and no tile, and \<open>copyFromDense\<close> returns what \<open>pruneTiles\<close> makes
  of it: again no leaf and no tile, for a pruning pass that never adds nodes. This holds
  for every box, a single leaf cell among them.
\<close>

theorem background_grid_stays_empty:
  fixes dense :: "('v::linordered_idom) Dense" and blocks :: "'v Block list"
  assumes "dense_ok dense" "tree_empty tree" "\<forall>v \<in> set (mData dense). v = background tree"
    and "partition_blocks lg (mBBox dense) = Some blocks"
    and "serial \<or> splits_range (length blocks) ranges"
  shows "insert_blocks lg ranges sched (CopyFromDense_new dense tree 0) serial = Some (Inr tree) \<and>
         leafCount tree = 0 \<and> tileCount tree = 0 \<and>
         copyFromDense prune lg ranges sched dense tree 0 serial = Some (Inr (prune 0 tree)) \<and>
         ((\<forall>t. leafCount (prune 0 t) \<le> leafCount t \<and> tileCount (prune 0 t) \<le> tileCount t) \<longrightarrow>
            leafCount (prune 0 tree) = 0 \<and> tileCount (prune 0 tree) = 0)"
proof -
  let ?op = "CopyFromDense_new dense tree 0"
  have ne: "\<not> bbox_empty (mBBox dense)" using assms(1) by (simp add: dense_ok_def)
  note grid = partition_in_grid [OF assms(1,4)]
  note fresh = partition_fresh [OF ne assms(4)]
  have ap: "\<forall>v \<in> set (mData dense). isApproxEqual (background tree) v 0"
    using assms(3) by (simp add: isApproxEqual_def)
  have out: "block_out lg ?op b = b\<lparr>tile := (background tree, False)\<rparr>" if "b \<in> set blocks" for b
    using synth_block_bg [OF assms(1,2) ap, of b lg] grid that by (simp add: block_out_def)
  have "\<forall>b \<in> set (map (block_out lg ?op) blocks). merge_block lg b tree = tree"
    using out fresh by (auto simp: merge_block_def)
  then have m: "merge_blocks lg (map (block_out lg ?op) blocks) tree = tree"
    unfolding merge_blocks_def by (rule fold_unchanged)
  have ins: "insert_blocks lg ranges sched ?op serial = Some (Inr tree)"
    using insert_blocks_eq [OF assms(1,4,5), where t = tree and tol = 0] m by simp
  have cnt: "leafCount tree = 0" "tileCount tree = 0"
    using assms(2) by (simp_all add: tree_empty_def leafCount_def tileCount_def)
  have cp: "copyFromDense prune lg ranges sched dense tree 0 serial = Some (Inr (prune 0 tree))"
    by (simp add: copyFromDense_def copy_def ins new_fields)
  have pr: "(\<forall>t. leafCount (prune 0 t) \<le> leafCount t \<and> tileCount (prune 0 t) \<le> tileCount t) \<longrightarrow>
            leafCount (prune 0 tree) = 0 \<and> tileCount (prune 0 tree) = 0"
  proof
    assume "\<forall>t. leafCount (prune 0 t) \<le> leafCount t \<and> tileCount (prune 0 t) \<le> tileCount t"
    then have "leafCount (prune 0 tree) \<le> leafCount tree \<and> tileCount (prune 0 tree) \<le> tileCount tree"
      by blast
    with cnt show "leafCount (prune 0 tree) = 0 \<and> tileCount (prune 0 tree) = 0" by simp
  qed
  show ?thesis using ins cnt cp pr by blast
qed

theorem background_grid_stays_empty_witness:
  "dense_ok (dense_fields \<lparr>mMin = Coord (- 2) 0 2, mMax = Coord (- 1) 1 3\<rparr> (replicate 8 (4 :: int))) \<and>
   tree_empty \<lparr>background = 4 :: int, mTable = []\<rparr> \<and>
   \<lparr>mMin = Coord (- 2) 0 2, mMax = Coord (- 1) 1 3\<rparr> = leaf_cell 1 (Coord (- 2) 0 2) \<and>
   partition_blocks 1 \<lparr>mMin = Coord (- 2) 0 2, mMax = Coord (- 1) 1 3\<rparr>
     = Some [Block_new \<lparr>mMin = Coord (- 2) 0 2, mMax = Coord (- 1) 1 3\<rparr> :: int Block] \<and>
   copyFromDense (\<lambda>tol t. t) 1 [] []
      (dense_fields \<lparr>mMin = Coord (- 2) 0 2, mMax = Coord (- 1) 1 3\<rparr> (replicate 8 (4 :: int)))
      \<lparr>background = 4, mTable = []\<rparr> 0 True
     = Some (Inr \<lparr>background = 4, mTable = []\<rparr>) \<and>
   leafCount \<lparr>background = 4 :: int, mTable = []\<rparr> = 0 \<and>
   tileCount \<lparr>background = 4 :: int, mTable = []\<rparr> = 0"
proof -
  let ?B = "\<lparr>mMin = Coord (- 2) 0 2, mMax = Coord (- 1) 1 3\<rparr>"
  let ?D = "dense_fields ?B (replicate 8 (4 :: int))"
  let ?E = "\<lparr>background = 4 :: int, mTable = []\<rparr>"
  have ok: "dense_ok ?D"
    by (simp add: dense_ok_def dense_fields_def bbox_empty_def bbox_dim_def volume_def)
  have em: "tree_empty ?E" by (simp add: tree_empty_def)
  have vals: "\<forall>v \<in> set (mData ?D). v = background ?E" by (simp add: dense_fields_def)
  have cell: "?B = leaf_cell 1 (Coord (- 2) 0 2)"
    by (simp add: leaf_cell_def offsetBy_def DIM_def)
  have part: "partition_blocks 1 (mBBox ?D) = Some [Block_new ?B :: int Block]"
    by code_simp
  have part': "partition_blocks 1 ?B = Some [Block_new ?B :: int Block]"
    using part by (simp add: dense_fields_def)
  from background_grid_stays_empty [OF ok em vals part, where serial = True and ranges = "[]" and sched = "[]" and prune = "\<lambda>tol t. t"]
  have "copyFromDense (\<lambda>tol t. t) 1 [] [] ?D ?E 0 True = Some (Inr ?E)"
       "leafCount ?E = 0" "tileCount ?E = 0"
    by simp_all
  then show ?thesis using ok em cell part' by blast
qed

section \<open>Tolerance and the number of nodes\<close>

lemma copy_voxels_mono:
  fixes t1 t2 :: "'v::linordered_idom"
  assumes "t1 \<le> t2"
  shows "length vs1 = length vs2 \<Longrightarrow>
         \<forall>n < length vs1. \<not> snd (vs1 ! n) \<longrightarrow> vs2 ! n = vs1 ! n \<Longrightarrow>
         copy_voxels lg d bg t1 cs vs1 = Inr r1 \<Longrightarrow>
         copy_voxels lg d bg t2 cs vs2 = Inr r2 \<Longrightarrow>
         length r1 = length r2 \<and> (\<forall>n < length r1. \<not> snd (r1 ! n) \<longrightarrow> r2 ! n = r1 ! n)"
proof (induction cs arbitrary: vs1 vs2)
  case Nil
  then show ?case by simp
next
  case (Cons c cs)
  from Cons.prems(3) obtain v where v: "dense_read d c = Inr v"
    by (cases "dense_read d c") simp_all
  let ?n = "leaf_offset lg c"
  let ?w1 = "if isApproxEqual bg v t1 then vs1[?n := (bg, False)] else vs1[?n := (v, True)]"
  let ?w2 = "if isApproxEqual bg v t2 then vs2[?n := (bg, False)] else vs2[?n := (v, True)]"
  have r: "copy_voxels lg d bg t1 cs ?w1 = Inr r1" "copy_voxels lg d bg t2 cs ?w2 = Inr r2"
    using Cons.prems(3,4) v by simp_all
  have imp: "isApproxEqual bg v t1 \<Longrightarrow> isApproxEqual bg v t2"
    using assms by (rule isApproxEqual_mono [rotated])
  have len: "length ?w1 = length ?w2" using Cons.prems(1) by simp
  have rel: "\<forall>n < length ?w1. \<not> snd (?w1 ! n) \<longrightarrow> ?w2 ! n = ?w1 ! n"
  proof (intro allI impI)
    fix n assume n: "n < length ?w1" and off: "\<not> snd (?w1 ! n)"
    have n1: "n < length vs1" "n < length vs2" using n Cons.prems(1) by (simp_all split: if_splits)
    show "?w2 ! n = ?w1 ! n"
    proof (cases "n = ?n")
      case True
      then have "isApproxEqual bg v t1" using off n1 by (simp split: if_splits)
      then show ?thesis using imp True n1 by simp
    next
      case False
      then have "\<not> snd (vs1 ! n)" using off by (simp split: if_splits)
      then have "vs2 ! n = vs1 ! n" using Cons.prems(2) n1 by simp
      then show ?thesis using False by simp
    qed
  qed
  show ?case by (rule Cons.IH [OF len rel r])
qed

lemma leaf_isConstant_inactive:
  assumes "leaf_isConstant tol l = Some (v, False)"
  shows "\<forall>p \<in> set (mVoxels l). \<not> snd p"
  using assms
  by (auto simp: leaf_isConstant_def list_all_iff split: list.splits prod.splits if_splits)

lemma leaf_isConstant_mono:
  fixes t1 t2 :: "'v::linordered_idom"
  assumes "t1 \<le> t2" "leaf_isConstant t1 l = Some r"
  shows "leaf_isConstant t2 l = Some r"
proof (cases "mVoxels l")
  case Nil
  with assms(2) show ?thesis by (simp add: leaf_isConstant_def)
next
  case (Cons p rest)
  obtain v0 s0 where p: "p = (v0, s0)" by (cases p)
  from assms(2) have a: "list_all (\<lambda>(v, s). s = s0) rest" "list_all (\<lambda>(v, s). isApproxEqual v v0 t1) rest"
    "r = (v0, s0)"
    by (auto simp: leaf_isConstant_def Cons p split: if_splits)
  have "list_all (\<lambda>(v, s). isApproxEqual v v0 t2) rest"
    using a(2) assms(1) by (auto simp: list_all_iff intro: isApproxEqual_mono)
  with a show ?thesis by (simp add: leaf_isConstant_def Cons p)
qed

text \<open>
  A block is inserted when it holds a leaf or its tile flag is set; it goes to the table
  entry of the leaf cell of its minimum corner.
\<close>

definition inserted :: "'v Block \<Rightarrow> bool" where
  "inserted b \<longleftrightarrow> leaf b \<noteq> None \<or> snd (tile b)"

definition block_key :: "nat \<Rightarrow> 'v Block \<Rightarrow> Coord" where
  "block_key lg b = cell_origin lg (mMin (bbox b))"

lemma init_voxels_tol:
  "init_voxels lg (CopyFromDense_new d t t1) box = init_voxels lg (CopyFromDense_new d t t2) box"
  by (simp add: init_voxels_def CopyFromDense_new_def)

lemma block_out_mono:
  fixes t1 t2 :: "'v::linordered_idom"
  assumes "t1 \<le> t2" "dense_ok d" "block_in_grid d b" "leaf b = None"
    and "\<not> inserted (block_out lg (CopyFromDense_new d t t1) b)"
  shows "\<not> inserted (block_out lg (CopyFromDense_new d t t2) b)"
proof -
  let ?o1 = "CopyFromDense_new d t t1" and ?o2 = "CopyFromDense_new d t t2"
  let ?iv = "init_voxels lg ?o1 (bbox b)"
  have inside: "\<forall>c \<in> set (box_coords (bbox b)). isInside (mBBox d) c"
    using assms(3) by (simp add: box_coords_set block_in_grid_def)
  from copy_voxels_ok [OF assms(2) inside, of lg "background t" t1 ?iv] obtain r1 where
    r1: "copy_voxels lg d (background t) t1 (box_coords (bbox b)) ?iv = Inr r1" by blast
  from copy_voxels_ok [OF assms(2) inside, of lg "background t" t2 ?iv] obtain r2 where
    r2: "copy_voxels lg d (background t) t2 (box_coords (bbox b)) ?iv = Inr r2" by blast
  let ?l1 = "\<lparr>mOrigin = mMin (bbox b), mVoxels = r1\<rparr>"
  let ?l2 = "\<lparr>mOrigin = mMin (bbox b), mVoxels = r2\<rparr>"
  have s1: "synth_block lg ?o1 b =
      (case leaf_isConstant t1 ?l1 of Some x \<Rightarrow> Inr (b\<lparr>tile := x\<rparr>) | None \<Rightarrow> Inr (b\<lparr>leaf := Some ?l1\<rparr>))"
    using r1 by (simp add: synth_block_def new_fields)
  have s2: "synth_block lg ?o2 b =
      (case leaf_isConstant t2 ?l2 of Some x \<Rightarrow> Inr (b\<lparr>tile := x\<rparr>) | None \<Rightarrow> Inr (b\<lparr>leaf := Some ?l2\<rparr>))"
    using r2 by (simp add: synth_block_def new_fields init_voxels_tol [of lg d t t2 "bbox b" t1])
  from assms(5) obtain v where c1: "leaf_isConstant t1 ?l1 = Some (v, False)"
    by (cases "leaf_isConstant t1 ?l1") (auto simp: block_out_def s1 inserted_def)
  from copy_voxels_mono [OF assms(1) _ _ r1 r2]
  have rel: "length r1 = length r2" "\<forall>n < length r1. \<not> snd (r1 ! n) \<longrightarrow> r2 ! n = r1 ! n"
    by simp_all
  have "\<forall>n < length r1. \<not> snd (r1 ! n)"
    using leaf_isConstant_inactive [OF c1] by simp
  with rel have "r2 = r1" by (intro nth_equalityI) simp_all
  then have "leaf_isConstant t2 ?l2 = Some (v, False)"
    using leaf_isConstant_mono [OF assms(1) c1] by simp
  then show ?thesis using assms(4) by (simp add: block_out_def s2 inserted_def)
qed

lemma block_out_origin:
  assumes "leaf b = None" "leaf (block_out lg op b) = Some l"
  shows "mOrigin l = mMin (bbox (block_out lg op b))"
  using assms
  by (auto simp: block_out_def synth_block_def split: sum.splits option.splits)

lemma alist_update_length:
  "length (AList.update k v al) = (if k \<in> fst ` set al then length al else Suc (length al))"
  by (induction al) auto

lemma merge_block_table:
  assumes "\<forall>l. leaf b = Some l \<longrightarrow> mOrigin l = mMin (bbox b)"
  shows "fst ` set (mTable (merge_block lg b t))
           = (if inserted b then insert (block_key lg b) (fst ` set (mTable t)) else fst ` set (mTable t))"
    and "length (mTable (merge_block lg b t))
           = (if inserted b \<and> block_key lg b \<notin> fst ` set (mTable t)
              then Suc (length (mTable t)) else length (mTable t))"
  using assms
  by (auto simp: merge_block_def inserted_def block_key_def addLeaf_def addTile_def
      dom_update alist_update_length split: option.splits)

lemma merge_blocks_length:
  assumes "\<forall>b \<in> set bs. \<forall>l. leaf b = Some l \<longrightarrow> mOrigin l = mMin (bbox b)"
  shows "length (mTable (merge_blocks lg bs t))
       = length (mTable t) + card (block_key lg ` {b \<in> set bs. inserted b} - fst ` set (mTable t))"
  using assms
proof (induction bs arbitrary: t)
  case Nil
  then show ?case by (simp add: merge_blocks_def)
next
  case (Cons b bs)
  let ?K = "block_key lg ` {x \<in> set bs. inserted x}"
  let ?D = "fst ` set (mTable t)"
  let ?t1 = "merge_block lg b t"
  have org: "\<forall>l. leaf b = Some l \<longrightarrow> mOrigin l = mMin (bbox b)" using Cons.prems by simp
  note tb = merge_block_table [OF org, of lg t]
  have ih: "length (mTable (merge_blocks lg bs ?t1))
       = length (mTable ?t1) + card (?K - fst ` set (mTable ?t1))"
    using Cons.prems by (intro Cons.IH) simp
  have step: "merge_blocks lg (b # bs) t = merge_blocks lg bs ?t1"
    by (simp add: merge_blocks_def)
  have fin: "finite ?K" by simp
  have len: "length (mTable (merge_blocks lg (b # bs) t))
       = length (mTable ?t1) + card (?K - fst ` set (mTable ?t1))"
    using ih step by simp
  show ?case
  proof (cases "inserted b")
    case False
    then have "block_key lg ` {x \<in> set (b # bs). inserted x} = ?K" by auto
    moreover have "length (mTable ?t1) = length (mTable t)" "fst ` set (mTable ?t1) = ?D"
      using tb False by simp_all
    ultimately show ?thesis using len by simp
  next
    case True
    then have K': "block_key lg ` {x \<in> set (b # bs). inserted x} = insert (block_key lg b) ?K"
      by auto
    have dom1: "fst ` set (mTable ?t1) = insert (block_key lg b) ?D"
      using tb(1) True by simp
    show ?thesis
    proof (cases "block_key lg b \<in> ?D")
      case in_D: True
      then have a: "insert (block_key lg b) ?K - ?D = ?K - ?D" by auto
      have b: "insert (block_key lg b) ?D = ?D" using in_D by auto
      have c: "length (mTable ?t1) = length (mTable t)" using tb(2) in_D by simp
      show ?thesis unfolding K' a using len unfolding dom1 b c .
    next
      case False
      then have a: "insert (block_key lg b) ?K - ?D = insert (block_key lg b) (?K - insert (block_key lg b) ?D)"
        by auto
      have b: "card (insert (block_key lg b) (?K - insert (block_key lg b) ?D))
          = Suc (card (?K - insert (block_key lg b) ?D))"
        using fin by (intro card_insert_disjoint) auto
      have c: "length (mTable ?t1) = Suc (length (mTable t))" using tb(2) True False by simp
      show ?thesis unfolding K' a b using len unfolding dom1 c by simp
    qed
  qed
qed

text \<open>
  Claim C7 as stated fails. With background 0 and a grid of one leaf cell holding 5 and
  one 6, tolerance 1 gives one active tile and no leaf, while tolerance 5 turns the 5s
  into inactive background next to the active 6 and gives a leaf: more leaves under
  the larger tolerance. With 5 and one 7, tolerance 1 gives a leaf and no tile, and
  tolerance 2 gives one tile: more tiles. (The pruning pass is the identity here: it
  prunes tiles only, and a single leaf cell is no region of several cells.)
\<close>

theorem tolerance_monotone_counterexample:
  "copyFromDense (\<lambda>tol t. t) 1 [] []
      (dense_fields \<lparr>mMin = Coord 0 0 0, mMax = Coord 1 1 1\<rparr> [5, 6, 5, 5, 5, 5, 5, 5 :: int])
      \<lparr>background = 0, mTable = []\<rparr> 1 True
     = Some (Inr \<lparr>background = 0, mTable = [(Coord 0 0 0, TileNode 1 5 True)]\<rparr>) \<and>
   copyFromDense (\<lambda>tol t. t) 1 [] []
      (dense_fields \<lparr>mMin = Coord 0 0 0, mMax = Coord 1 1 1\<rparr> [5, 6, 5, 5, 5, 5, 5, 5 :: int])
      \<lparr>background = 0, mTable = []\<rparr> 5 True
     = Some (Inr \<lparr>background = 0,
                  mTable = [(Coord 0 0 0, LeafNode \<lparr>mOrigin = Coord 0 0 0,
                               mVoxels = [(0, False), (6, True), (0, False), (0, False),
                                          (0, False), (0, False), (0, False), (0, False)]\<rparr>)]\<rparr>) \<and>
   leafCount \<lparr>background = 0 :: int, mTable = [(Coord 0 0 0, TileNode 1 5 True)]\<rparr> = 0 \<and>
   leafCount \<lparr>background = 0 :: int,
                  mTable = [(Coord 0 0 0, LeafNode \<lparr>mOrigin = Coord 0 0 0,
                               mVoxels = [(0, False), (6, True), (0, False), (0, False),
                                          (0, False), (0, False), (0, False), (0, False)]\<rparr>)]\<rparr> = 1 \<and>
   copyFromDense (\<lambda>tol t. t) 1 [] []
      (dense_fields \<lparr>mMin = Coord 0 0 0, mMax = Coord 1 1 1\<rparr> [5, 7, 5, 5, 5, 5, 5, 5 :: int])
      \<lparr>background = 0, mTable = []\<rparr> 1 True
     = Some (Inr \<lparr>background = 0,
                  mTable = [(Coord 0 0 0, LeafNode \<lparr>mOrigin = Coord 0 0 0,
                               mVoxels = [(5, True), (7, True), (5, True), (5, True),
                                          (5, True), (5, True), (5, True), (5, True)]\<rparr>)]\<rparr>) \<and>
   copyFromDense (\<lambda>tol t. t) 1 [] []
      (dense_fields \<lparr>mMin = Coord 0 0 0, mMax = Coord 1 1 1\<rparr> [5, 7, 5, 5, 5, 5, 5, 5 :: int])
      \<lparr>background = 0, mTable = []\<rparr> 2 True
     = Some (Inr \<lparr>background = 0, mTable = [(Coord 0 0 0, TileNode 1 5 True)]\<rparr>) \<and>
   tileCount \<lparr>background = 0 :: int,
                  mTable = [(Coord 0 0 0, LeafNode \<lparr>mOrigin = Coord 0 0 0,
                               mVoxels = [(5, True), (7, True), (5, True), (5, True),
                                          (5, True), (5, True), (5, True), (5, True)]\<rparr>)]\<rparr> = 0 \<and>
   tileCount \<lparr>background = 0 :: int, mTable = [(Coord 0 0 0, TileNode 1 5 True)]\<rparr> = 1"
  by code_simp

text \<open>
  Claim C7, amended. For tolerances \<open>t1 \<le> t2\<close> on the same grid and destination tree,
  a block for which the insertion adds nothing under \<open>t1\<close> adds nothing under \<open>t2\<close>;
  so the tree handed to \<open>pruneTiles\<close> has no more nodes, leaves and tiles counted
  together, under \<open>t2\<close> than under \<open>t1\<close>. The number of leaves alone and the number
  of tiles alone can each grow.
\<close>

theorem tolerance_total_monotone:
  fixes dense :: "('v::linordered_idom) Dense" and blocks :: "'v Block list"
  assumes "dense_ok dense" "partition_blocks lg (mBBox dense) = Some blocks"
    and "serial \<or> splits_range (length blocks) ranges" "t1 \<le> t2"
  shows "\<exists>T1 T2.
           insert_blocks lg ranges sched (CopyFromDense_new dense tree t1) serial = Some (Inr T1) \<and>
           insert_blocks lg ranges sched (CopyFromDense_new dense tree t2) serial = Some (Inr T2) \<and>
           copyFromDense prune lg ranges sched dense tree t1 serial = Some (Inr (prune t1 T1)) \<and>
           copyFromDense prune lg ranges sched dense tree t2 serial = Some (Inr (prune t2 T2)) \<and>
           leafCount T2 + tileCount T2 \<le> leafCount T1 + tileCount T1"
proof -
  let ?o1 = "CopyFromDense_new dense tree t1" and ?o2 = "CopyFromDense_new dense tree t2"
  let ?b1 = "map (block_out lg ?o1) blocks" and ?b2 = "map (block_out lg ?o2) blocks"
  let ?T1 = "merge_blocks lg ?b1 tree" and ?T2 = "merge_blocks lg ?b2 tree"
  have ne: "\<not> bbox_empty (mBBox dense)" using assms(1) by (simp add: dense_ok_def)
  note grid = partition_in_grid [OF assms(1,2)]
  note fresh = partition_fresh [OF ne assms(2)]
  have i1: "insert_blocks lg ranges sched ?o1 serial = Some (Inr ?T1)"
    by (rule insert_blocks_eq [OF assms(1,2,3)])
  have i2: "insert_blocks lg ranges sched ?o2 serial = Some (Inr ?T2)"
    by (rule insert_blocks_eq [OF assms(1,2,3)])
  have c1: "copyFromDense prune lg ranges sched dense tree t1 serial = Some (Inr (prune t1 ?T1))"
    by (simp add: copyFromDense_def copy_def i1 new_fields)
  have c2: "copyFromDense prune lg ranges sched dense tree t2 serial = Some (Inr (prune t2 ?T2))"
    by (simp add: copyFromDense_def copy_def i2 new_fields)
  have org: "\<forall>b \<in> set (map (block_out lg op) blocks). \<forall>l. leaf b = Some l \<longrightarrow> mOrigin l = mMin (bbox b)"
    for op :: "'v CopyFromDense"
  proof (intro ballI allI impI)
    fix b l assume "b \<in> set (map (block_out lg op) blocks)" and l: "leaf b = Some l"
    then obtain b0 where b0: "b0 \<in> set blocks" "b = block_out lg op b0" by auto
    then have "leaf b0 = None" using fresh by simp
    from block_out_origin [OF this, of lg op l] l b0(2) show "mOrigin l = mMin (bbox b)" by simp
  qed
  note o1 = org [of ?o1] and o2 = org [of ?o2]
  let ?D = "fst ` set (mTable tree)"
  have k: "block_key lg (block_out lg op b) = block_key lg b" for op :: "'v CopyFromDense" and b
    by (simp add: block_key_def block_out_bbox)
  have K1: "block_key lg ` {b \<in> set ?b1. inserted b}
      = block_key lg ` {b \<in> set blocks. inserted (block_out lg ?o1 b)}"
    by (auto simp: k image_iff) (metis k)+
  have K2: "block_key lg ` {b \<in> set ?b2. inserted b}
      = block_key lg ` {b \<in> set blocks. inserted (block_out lg ?o2 b)}"
    by (auto simp: k image_iff) (metis k)+
  have sub: "{b \<in> set blocks. inserted (block_out lg ?o2 b)} \<subseteq> {b \<in> set blocks. inserted (block_out lg ?o1 b)}"
    using block_out_mono [OF assms(4,1)] grid fresh by blast
  have cm: "card (block_key lg ` {b \<in> set blocks. inserted (block_out lg ?o2 b)} - ?D)
      \<le> card (block_key lg ` {b \<in> set blocks. inserted (block_out lg ?o1 b)} - ?D)"
    using sub by (intro card_mono) auto
  have "length (mTable ?T2) \<le> length (mTable ?T1)"
    unfolding merge_blocks_length [OF o1] merge_blocks_length [OF o2] K1 K2
    using cm by (rule add_left_mono)
  then have "leafCount ?T2 + tileCount ?T2 \<le> leafCount ?T1 + tileCount ?T1"
    by (simp add: node_counts)
  with i1 i2 c1 c2 show ?thesis by blast
qed

theorem tolerance_total_monotone_witness:
  "dense_ok (dense_fields \<lparr>mMin = Coord 0 0 0, mMax = Coord 1 1 1\<rparr> [5, 6, 5, 5, 5, 5, 5, 5 :: int]) \<and>
   partition_blocks 1 \<lparr>mMin = Coord 0 0 0, mMax = Coord 1 1 1\<rparr>
     = Some [Block_new \<lparr>mMin = Coord 0 0 0, mMax = Coord 1 1 1\<rparr> :: int Block] \<and>
   (1 :: int) \<le> 5 \<and>
   insert_blocks 1 [] [] (CopyFromDense_new
       (dense_fields \<lparr>mMin = Coord 0 0 0, mMax = Coord 1 1 1\<rparr> [5, 6, 5, 5, 5, 5, 5, 5 :: int])
       \<lparr>background = 0, mTable = []\<rparr> 1) True
     = Some (Inr \<lparr>background = 0, mTable = [(Coord 0 0 0, TileNode 1 5 True)]\<rparr>) \<and>
   insert_blocks 1 [] [] (CopyFromDense_new
       (dense_fields \<lparr>mMin = Coord 0 0 0, mMax = Coord 1 1 1\<rparr> [5, 6, 5, 5, 5, 5, 5, 5 :: int])
       \<lparr>background = 0, mTable = []\<rparr> 5) True
     = Some (Inr \<lparr>background = 0,
                  mTable = [(Coord 0 0 0, LeafNode \<lparr>mOrigin = Coord 0 0 0,
                               mVoxels = [(0, False), (6, True), (0, False), (0, False),
                                          (0, False), (0, False), (0, False), (0, False)]\<rparr>)]\<rparr>) \<and>
   leafCount \<lparr>background = 0 :: int,
                  mTable = [(Coord 0 0 0, LeafNode \<lparr>mOrigin = Coord 0 0 0,
                               mVoxels = [(0, False), (6, True), (0, False), (0, False),
                                          (0, False), (0, False), (0, False), (0, False)]\<rparr>)]\<rparr>
     + tileCount \<lparr>background = 0 :: int,
                  mTable = [(Coord 0 0 0, LeafNode \<lparr>mOrigin = Coord 0 0 0,
                               mVoxels = [(0, False), (6, True), (0, False), (0, False),
                                          (0, False), (0, False), (0, False), (0, False)]\<rparr>)]\<rparr>
     \<le> leafCount \<lparr>background = 0 :: int, mTable = [(Coord 0 0 0, TileNode 1 5 True)]\<rparr>
       + tileCount \<lparr>background = 0 :: int, mTable = [(Coord 0 0 0, TileNode 1 5 True)]\<rparr>"
proof -
  let ?B = "\<lparr>mMin = Coord 0 0 0, mMax = Coord 1 1 1\<rparr>"
  let ?D = "dense_fields ?B [5, 6, 5, 5, 5, 5, 5, 5 :: int]"
  let ?E = "\<lparr>background = 0 :: int, mTable = []\<rparr>"
  let ?T1 = "\<lparr>background = 0 :: int, mTable = [(Coord 0 0 0, TileNode 1 5 True)]\<rparr>"
  let ?T2 = "\<lparr>background = 0 :: int,
                  mTable = [(Coord 0 0 0, LeafNode \<lparr>mOrigin = Coord 0 0 0,
                               mVoxels = [(0, False), (6, True), (0, False), (0, False),
                                          (0, False), (0, False), (0, False), (0, False)]\<rparr>)]\<rparr>"
  have ok: "dense_ok ?D"
    by (simp add: dense_ok_def dense_fields_def bbox_empty_def bbox_dim_def volume_def)
  have part: "partition_blocks 1 (mBBox ?D) = Some [Block_new ?B :: int Block]"
    by code_simp
  have part': "partition_blocks 1 ?B = Some [Block_new ?B :: int Block]"
    using part by (simp add: dense_fields_def)
  have le: "(1 :: int) \<le> 5" by simp
  have e1: "insert_blocks 1 [] [] (CopyFromDense_new ?D ?E 1) True = Some (Inr ?T1)" by code_simp
  have e2: "insert_blocks 1 [] [] (CopyFromDense_new ?D ?E 5) True = Some (Inr ?T2)" by code_simp
  from tolerance_total_monotone [OF ok part _ le, where serial = True and ranges = "[]" and sched = "[]" and tree = ?E and prune = "\<lambda>tol t. t"]
  obtain T1 T2 where
    "insert_blocks 1 [] [] (CopyFromDense_new ?D ?E 1) True = Some (Inr T1)"
    "insert_blocks 1 [] [] (CopyFromDense_new ?D ?E 5) True = Some (Inr T2)"
    "leafCount T2 + tileCount T2 \<le> leafCount T1 + tileCount T1"
    by auto
  with e1 e2 have "leafCount ?T2 + tileCount ?T2 \<le> leafCount ?T1 + tileCount ?T1"
    by simp
  then show ?thesis using ok part' le e1 e2 by blast
qed

section \<open>Populating the dense grid\<close>

text \<open>The array offset of a coordinate, and grids that differ in their values only.\<close>

definition coord_off :: "'v Dense \<Rightarrow> Coord \<Rightarrow> nat" where
  "coord_off d c = coordToOffset d (nat (cx c - cx (mMin (mBBox d))))
                                   (nat (cy c - cy (mMin (mBBox d))))
                                   (nat (cz c - cz (mMin (mBBox d))))"

definition same_shape :: "'v Dense \<Rightarrow> 'v Dense \<Rightarrow> bool" where
  "same_shape d' d \<longleftrightarrow>
     mBBox d' = mBBox d \<and> mY d' = mY d \<and> mX d' = mX d \<and> length (mData d') = length (mData d)"

lemma same_shape_refl: "same_shape d d"
  by (simp add: same_shape_def)

lemma same_shape_trans: "same_shape d'' d' \<Longrightarrow> same_shape d' d \<Longrightarrow> same_shape d'' d"
  by (simp add: same_shape_def)

lemma same_shape_ok: "same_shape d' d \<Longrightarrow> dense_ok d \<Longrightarrow> dense_ok d'"
  by (simp add: same_shape_def dense_ok_def)

lemma same_shape_off: "same_shape d' d \<Longrightarrow> coord_off d' c = coord_off d c"
  by (simp add: same_shape_def coord_off_def coordToOffset_def)

lemma coord_off_lt:
  assumes "dense_ok d" "isInside (mBBox d) c"
  shows "coord_off d c < length (mData d)"
proof -
  have "coord_off d c < volume (mBBox d)"
    unfolding coord_off_def by (rule inside_offset_lt [OF assms])
  then show ?thesis using assms(1) by (simp add: dense_ok_def)
qed

lemma coord_off_inj:
  assumes "dense_ok d" "isInside (mBBox d) c" "isInside (mBBox d) c'"
    and "coord_off d c = coord_off d c'"
  shows "c = c'"
proof -
  let ?dy = "nat (cy (bbox_dim (mBBox d)))" and ?dz = "nat (cz (bbox_dim (mBBox d)))"
  let ?i = "\<lambda>c. nat (cx c - cx (mMin (mBBox d)))"
  let ?j = "\<lambda>c. nat (cy c - cy (mMin (mBBox d)))"
  let ?k = "\<lambda>c. nat (cz c - cz (mMin (mBBox d)))"
  have s: "mY d = ?dz" "mX d = ?dz * ?dy" using assms(1) by (simp_all add: dense_ok_def)
  have eq: "?k c + ?j c * ?dz + ?i c * (?dz * ?dy) = ?k c' + ?j c' * ?dz + ?i c' * (?dz * ?dy)"
    using assms(4) by (simp add: coord_off_def coordToOffset_def s)
  note l = inside_local [OF assms(2)] and l' = inside_local [OF assms(3)]
  have "?i c = ?i c'"
    using offset_decode(1) [OF l(2,3), of "?i c"] offset_decode(1) [OF l'(2,3), of "?i c'"] eq
    by simp
  moreover have "?j c = ?j c'"
    using offset_decode(2) [OF l(2,3), of "?i c"] offset_decode(2) [OF l'(2,3), of "?i c'"] eq
    by simp
  moreover have "?k c = ?k c'"
    using offset_decode(3) [OF l(2,3), of "?i c"] offset_decode(3) [OF l'(2,3), of "?i c'"] eq
    by simp
  ultimately have "cx c = cx c'" "cy c = cy c'" "cz c = cz c'"
    using assms(2,3) by (auto simp: isInside_def)
  then show ?thesis by (simp add: Coord.expand)
qed

lemma dense_write_ok:
  assumes "dense_ok d" "isInside (mBBox d) c"
  shows "dense_write d c v = Inr (d\<lparr>mData := (mData d)[coord_off d c := v]\<rparr>)"
  using coord_off_lt [OF assms] assms(2)
  by (simp add: dense_write_def setValue_offset_def coord_off_def)

lemma write_voxels_result:
  assumes "dense_ok d" "\<forall>c \<in> set cs. isInside (mBBox d) c"
  shows "\<exists>d'. write_voxels lg t cs d = Inr d' \<and> same_shape d' d \<and>
           (\<forall>c. isInside (mBBox d) c \<longrightarrow>
              mData d' ! coord_off d c =
                (if c \<in> set cs then snd (probeValue lg t c) else mData d ! coord_off d c))"
  using assms
proof (induction cs arbitrary: d)
  case Nil
  then show ?case by (simp add: same_shape_refl)
next
  case (Cons c0 cs)
  let ?v0 = "snd (probeValue lg t c0)"
  let ?d1 = "d\<lparr>mData := (mData d)[coord_off d c0 := ?v0]\<rparr>"
  have in0: "isInside (mBBox d) c0" using Cons.prems(2) by simp
  have w: "dense_write d c0 ?v0 = Inr ?d1" by (rule dense_write_ok [OF Cons.prems(1) in0])
  have sh1: "same_shape ?d1 d" by (simp add: same_shape_def)
  have ok1: "dense_ok ?d1" by (rule same_shape_ok [OF sh1 Cons.prems(1)])
  have "\<forall>c \<in> set cs. isInside (mBBox ?d1) c" using Cons.prems(2) by simp
  from Cons.IH [OF ok1 this] obtain d' where
    r: "write_voxels lg t cs ?d1 = Inr d'" and sh: "same_shape d' ?d1"
    and val: "\<forall>c. isInside (mBBox ?d1) c \<longrightarrow>
              mData d' ! coord_off ?d1 c =
                (if c \<in> set cs then snd (probeValue lg t c) else mData ?d1 ! coord_off ?d1 c)"
    by blast
  have "\<forall>c. isInside (mBBox d) c \<longrightarrow>
              mData d' ! coord_off d c =
                (if c \<in> set (c0 # cs) then snd (probeValue lg t c) else mData d ! coord_off d c)"
  proof (intro allI impI)
    fix c assume c: "isInside (mBBox d) c"
    have v: "mData d' ! coord_off d c =
                (if c \<in> set cs then snd (probeValue lg t c) else mData ?d1 ! coord_off d c)"
      using val c by (simp add: same_shape_off [OF sh1])
    show "mData d' ! coord_off d c =
                (if c \<in> set (c0 # cs) then snd (probeValue lg t c) else mData d ! coord_off d c)"
    proof (cases "c = c0")
      case True
      then show ?thesis using v coord_off_lt [OF Cons.prems(1) in0] by simp
    next
      case False
      then have "coord_off d c \<noteq> coord_off d c0"
        using coord_off_inj [OF Cons.prems(1) c in0] by blast
      then show ?thesis using v False by simp
    qed
  qed
  then show ?case using w r same_shape_trans [OF sh sh1] by simp
qed

lemma parallel_for_box_result:
  assumes "dense_ok d" "\<forall>s \<in> set subs. \<forall>c. isInside s c \<longrightarrow> isInside (mBBox d) c"
  shows "\<exists>d'. parallel_for_box lg subs t d = Inr d' \<and> same_shape d' d \<and>
           (\<forall>c. isInside (mBBox d) c \<longrightarrow>
              mData d' ! coord_off d c =
                (if \<exists>s \<in> set subs. isInside s c then snd (probeValue lg t c)
                 else mData d ! coord_off d c))"
  using assms
proof (induction subs arbitrary: d)
  case Nil
  then show ?case by (simp add: same_shape_refl)
next
  case (Cons s ss)
  have "\<forall>c \<in> set (box_coords s). isInside (mBBox d) c"
    using Cons.prems(2) by (simp add: box_coords_set)
  from write_voxels_result [OF Cons.prems(1) this, of lg t] obtain d1 where
    w: "root_copyToDense lg t s d = Inr d1" and sh1: "same_shape d1 d"
    and v1: "\<forall>c. isInside (mBBox d) c \<longrightarrow>
              mData d1 ! coord_off d c =
                (if isInside s c then snd (probeValue lg t c) else mData d ! coord_off d c)"
    by (auto simp: root_copyToDense_def box_coords_set)
  have ok1: "dense_ok d1" by (rule same_shape_ok [OF sh1 Cons.prems(1)])
  have b1: "mBBox d1 = mBBox d" using sh1 by (simp add: same_shape_def)
  have "\<forall>s \<in> set ss. \<forall>c. isInside s c \<longrightarrow> isInside (mBBox d1) c"
    using Cons.prems(2) by (simp add: b1)
  from Cons.IH [OF ok1 this] obtain d' where
    r: "parallel_for_box lg ss t d1 = Inr d'" and sh: "same_shape d' d1"
    and v: "\<forall>c. isInside (mBBox d1) c \<longrightarrow>
              mData d' ! coord_off d1 c =
                (if \<exists>s \<in> set ss. isInside s c then snd (probeValue lg t c)
                 else mData d1 ! coord_off d1 c)"
    by blast
  have "\<forall>c. isInside (mBBox d) c \<longrightarrow>
              mData d' ! coord_off d c =
                (if \<exists>x \<in> set (s # ss). isInside x c then snd (probeValue lg t c)
                 else mData d ! coord_off d c)"
    using v v1 by (auto simp: b1 same_shape_off [OF sh1])
  then show ?case using w r same_shape_trans [OF sh sh1] by simp
qed

lemma splits_box_props:
  assumes "splits_box box subs"
  shows "\<forall>s \<in> set subs. \<forall>c. isInside s c \<longrightarrow> isInside box c"
    and "\<forall>c. isInside box c \<longrightarrow> (\<exists>s \<in> set subs. isInside s c)"
  using assms by (auto simp: splits_box_def list_all_iff list_ex_iff box_coords_set)

lemma getValue_xyz_off:
  assumes "dense_ok d" "isInside (mBBox d) c"
  shows "getValue_xyz d c = Inr (mData d ! coord_off d c)"
  using coord_off_lt [OF assms] assms(2)
  by (simp add: getValue_xyz_def coordToOffset_xyz_def getValue_offset_def coord_off_def)

text \<open>
  Claim C9. For every source tree and every grid as the constructors build it,
  \<open>copyToDense\<close> in serial mode, and in parallel mode for whatever sub-boxes the
  scheduler covers the grid's box with, returns a grid of the same box in which every
  coordinate of the box holds the value the tree has there, whether the voxel is active
  or not: the whole region is overwritten.
\<close>

theorem copyToDense_overwrites:
  assumes "dense_ok dense" "serial \<or> splits_box (mBBox dense) subs"
  shows "\<exists>d'. copyToDense lg subs tree dense serial = Inr d' \<and>
              mBBox d' = mBBox dense \<and> length (mData d') = length (mData dense) \<and>
              (\<forall>c. isInside (mBBox dense) c \<longrightarrow>
                 getValue_xyz d' c = Inr (snd (probeValue lg tree c)))"
proof -
  have "\<exists>d'. copyToDense lg subs tree dense serial = Inr d' \<and> same_shape d' dense \<and>
           (\<forall>c. isInside (mBBox dense) c \<longrightarrow>
              mData d' ! coord_off dense c = snd (probeValue lg tree c))"
  proof (cases serial)
    case True
    have "\<forall>c \<in> set (box_coords (mBBox dense)). isInside (mBBox dense) c"
      by (simp add: box_coords_set)
    from write_voxels_result [OF assms(1) this, of lg tree] True show ?thesis
      by (auto simp: copyToDense_def CopyToDense_copy_def root_copyToDense_def box_coords_set)
  next
    case False
    with assms(2) have sp: "splits_box (mBBox dense) subs" by simp
    from parallel_for_box_result [OF assms(1) splits_box_props(1) [OF sp], of lg tree]
      splits_box_props(2) [OF sp] False
    show ?thesis by (auto simp: copyToDense_def CopyToDense_copy_def)
  qed
  then obtain d' where r: "copyToDense lg subs tree dense serial = Inr d'"
    and sh: "same_shape d' dense"
    and v: "\<forall>c. isInside (mBBox dense) c \<longrightarrow>
              mData d' ! coord_off dense c = snd (probeValue lg tree c)"
    by blast
  have ok: "dense_ok d'" by (rule same_shape_ok [OF sh assms(1)])
  have b: "mBBox d' = mBBox dense" "length (mData d') = length (mData dense)"
    using sh by (simp_all add: same_shape_def)
  have "\<forall>c. isInside (mBBox dense) c \<longrightarrow> getValue_xyz d' c = Inr (snd (probeValue lg tree c))"
    using v getValue_xyz_off [OF ok] by (simp add: b same_shape_off [OF sh])
  with r b show ?thesis by blast
qed

theorem copyToDense_overwrites_witness:
  "dense_ok (dense_fields \<lparr>mMin = Coord 0 0 0, mMax = Coord 3 0 0\<rparr> [1, 2, 3, 4 :: int]) \<and>
   splits_box \<lparr>mMin = Coord 0 0 0, mMax = Coord 3 0 0\<rparr>
      [\<lparr>mMin = Coord 2 0 0, mMax = Coord 3 0 0\<rparr>, \<lparr>mMin = Coord 0 0 0, mMax = Coord 1 0 0\<rparr>] \<and>
   copyToDense 1 [\<lparr>mMin = Coord 2 0 0, mMax = Coord 3 0 0\<rparr>, \<lparr>mMin = Coord 0 0 0, mMax = Coord 1 0 0\<rparr>]
      \<lparr>background = 7, mTable = [(Coord 2 0 0, TileNode 1 9 False)]\<rparr>
      (dense_fields \<lparr>mMin = Coord 0 0 0, mMax = Coord 3 0 0\<rparr> [1, 2, 3, 4 :: int]) False
     = Inr (dense_fields \<lparr>mMin = Coord 0 0 0, mMax = Coord 3 0 0\<rparr> [7, 7, 9, 9]) \<and>
   getValue_xyz (dense_fields \<lparr>mMin = Coord 0 0 0, mMax = Coord 3 0 0\<rparr> [7, 7, 9, 9 :: int]) (Coord 2 0 0)
     = Inr (snd (probeValue 1 \<lparr>background = 7, mTable = [(Coord 2 0 0, TileNode 1 9 False)]\<rparr> (Coord 2 0 0)))"
proof -
  let ?B = "\<lparr>mMin = Coord 0 0 0, mMax = Coord 3 0 0\<rparr>"
  let ?D = "dense_fields ?B [1, 2, 3, 4 :: int]"
  let ?S = "[\<lparr>mMin = Coord 2 0 0, mMax = Coord 3 0 0\<rparr>, \<lparr>mMin = Coord 0 0 0, mMax = Coord 1 0 0\<rparr>]"
  let ?T = "\<lparr>background = 7 :: int, mTable = [(Coord 2 0 0, TileNode 1 9 False)]\<rparr>"
  have ok: "dense_ok ?D"
    by (simp add: dense_ok_def dense_fields_def bbox_empty_def bbox_dim_def volume_def)
  have sp: "splits_box (mBBox ?D) ?S" by code_simp
  have sp': "splits_box ?B ?S" using sp by (simp add: dense_fields_def)
  have ev: "copyToDense 1 ?S ?T ?D False = Inr (dense_fields ?B [7, 7, 9, 9])" by code_simp
  have ins: "isInside (mBBox ?D) (Coord 2 0 0)" by (simp add: dense_fields_def isInside_def)
  from copyToDense_overwrites [OF ok, where serial = False and subs = ?S and lg = 1 and tree = ?T] sp ev ins
  have "getValue_xyz (dense_fields ?B [7, 7, 9, 9 :: int]) (Coord 2 0 0)
     = Inr (snd (probeValue 1 ?T (Coord 2 0 0)))"
    by auto
  then show ?thesis using ok sp' ev by blast
qed

end
